theory Spec2Isabelle
  imports Complex_Main "HOL-Library.Stream"
begin

unbundle bit_operations_syntax

section \<open>Python values\<close>

text \<open>
  The program is \<^verbatim>\<open>src/matrix.py\<close>, a terminal painter for Wi-Fi motion records.
  Its numbers are Python \<^verbatim>\<open>int\<close> (unbounded, modelled as \<^typ>\<open>int\<close>) and Python
  \<^verbatim>\<open>float\<close>. A finite float is idealised as a \<^typ>\<open>real\<close>: no rounding and no
  overflow. The three special floats are kept as values of their own wherever a
  number read from the input can reach, because \<^verbatim>\<open>float("inf")\<close> and
  \<^verbatim>\<open>float("nan")\<close> parse and \<^verbatim>\<open>int()\<close> raises on them.
\<close>

datatype error = IndexError | ValueError | OverflowError | ZeroDivisionError

datatype pyfloat = Num real | PosInf | NegInf | NaN

fun f_neg :: "pyfloat \<Rightarrow> pyfloat" where
  "f_neg (Num a) = Num (- a)"
| "f_neg PosInf = NegInf"
| "f_neg NegInf = PosInf"
| "f_neg NaN = NaN"

fun f_add :: "pyfloat \<Rightarrow> pyfloat \<Rightarrow> pyfloat" where
  "f_add (Num a) (Num b) = Num (a + b)"
| "f_add NaN y = NaN"
| "f_add x NaN = NaN"
| "f_add PosInf NegInf = NaN"
| "f_add NegInf PosInf = NaN"
| "f_add PosInf y = PosInf"
| "f_add NegInf y = NegInf"
| "f_add x PosInf = PosInf"
| "f_add x NegInf = NegInf"

definition f_sub :: "pyfloat \<Rightarrow> pyfloat \<Rightarrow> pyfloat" where
  "f_sub x y = f_add x (f_neg y)"

text \<open>The sign of a float as \<open>-1\<close>, \<open>0\<close> or \<open>1\<close>; only read on values that are not NaN.\<close>

fun f_sign :: "pyfloat \<Rightarrow> real" where
  "f_sign (Num a) = sgn a"
| "f_sign PosInf = 1"
| "f_sign NegInf = - 1"
| "f_sign NaN = 0"

fun f_mul :: "pyfloat \<Rightarrow> pyfloat \<Rightarrow> pyfloat" where
  "f_mul (Num a) (Num b) = Num (a * b)"
| "f_mul NaN y = NaN"
| "f_mul x NaN = NaN"
| "f_mul x y =
     (let s = f_sign x * f_sign y
      in if s > 0 then PosInf else if s < 0 then NegInf else NaN)"

text \<open>
  Division of a float by a finite divisor. Every float division of the program that can
  see a special value divides by a constant (\<open>60\<close>, \<open>8\<close>) or by \<open>max(1e-3, ...)\<close>, so the
  divisor is a positive real and Python's ZeroDivisionError cannot arise there.
\<close>

fun f_divr :: "pyfloat \<Rightarrow> real \<Rightarrow> pyfloat" where
  "f_divr (Num a) c = Num (a / c)"
| "f_divr NaN c = NaN"
| "f_divr x c = (if c > 0 then x else f_neg x)"

fun f_abs :: "pyfloat \<Rightarrow> pyfloat" where
  "f_abs (Num a) = Num \<bar>a\<bar>"
| "f_abs PosInf = PosInf"
| "f_abs NegInf = PosInf"
| "f_abs NaN = NaN"

text \<open>Comparisons: every comparison with NaN is false.\<close>

fun f_lt :: "pyfloat \<Rightarrow> pyfloat \<Rightarrow> bool" where
  "f_lt (Num a) (Num b) = (a < b)"
| "f_lt NaN y = False"
| "f_lt x NaN = False"
| "f_lt PosInf y = False"
| "f_lt x NegInf = False"
| "f_lt x PosInf = True"
| "f_lt NegInf y = True"

definition f_gt :: "pyfloat \<Rightarrow> pyfloat \<Rightarrow> bool" where
  "f_gt x y = f_lt y x"

text \<open>\<^verbatim>\<open>int(x)\<close> of a float truncates toward zero, and raises on the special values.\<close>

definition py_int :: "real \<Rightarrow> int" where
  "py_int x = (if 0 \<le> x then \<lfloor>x\<rfloor> else \<lceil>x\<rceil>)"

fun f_int :: "pyfloat \<Rightarrow> error + int" where
  "f_int (Num a) = Inr (py_int a)"
| "f_int PosInf = Inl OverflowError"
| "f_int NegInf = Inl OverflowError"
| "f_int NaN = Inl ValueError"

text \<open>\<^verbatim>\<open>round(x)\<close> with one argument: the nearest integer, a tie going to the even one.\<close>

definition py_round :: "real \<Rightarrow> int" where
  "py_round x =
     (let f = \<lfloor>x\<rfloor>; d = x - of_int f
      in if d < 1 / 2 then f else if d > 1 / 2 then f + 1
         else if even f then f else f + 1)"

text \<open>\<^verbatim>\<open>max(a, b)\<close> of two floats returns \<open>a\<close> unless \<open>b > a\<close>.\<close>

definition f_max :: "pyfloat \<Rightarrow> pyfloat \<Rightarrow> pyfloat" where
  "f_max a b = (if f_gt b a then b else a)"

text \<open>
  List indexing as Python does it: a negative index counts from the end, and an index out
  of range raises IndexError.
\<close>

definition py_index :: "'a list \<Rightarrow> int \<Rightarrow> error + nat" where
  "py_index xs i =
     (let n = int (length xs)
      in if 0 \<le> i \<and> i < n then Inr (nat i)
         else if - n \<le> i \<and> i < 0 then Inr (nat (n + i))
         else Inl IndexError)"

definition py_get :: "'a list \<Rightarrow> int \<Rightarrow> error + 'a" where
  "py_get xs i = (case py_index xs i of Inl e \<Rightarrow> Inl e | Inr k \<Rightarrow> Inr (xs ! k))"

definition py_set :: "'a list \<Rightarrow> int \<Rightarrow> 'a \<Rightarrow> error + 'a list" where
  "py_set xs i v = (case py_index xs i of Inl e \<Rightarrow> Inl e | Inr k \<Rightarrow> Inr (xs[k := v]))"

text \<open>
  Text the program writes is a list of Unicode code points; \<open>asc\<close> embeds an ASCII
  literal and \<open>str_int\<close> is the decimal text of an integer, as an f-string prints it.
\<close>

type_synonym ustr = "nat list"

definition asc :: "string \<Rightarrow> ustr" where
  "asc s = map of_char s"

fun str_nat :: "nat \<Rightarrow> ustr" where
  "str_nat n = (if n < 10 then [48 + n] else str_nat (n div 10) @ [48 + n mod 10])"

definition str_int :: "int \<Rightarrow> ustr" where
  "str_int i = (if i < 0 then 45 # str_nat (nat (- i)) else str_nat (nat i))"

section \<open>Tunables\<close>

definition TARGET_FPS :: real where "TARGET_FPS = 20"
definition RSSI_NEAR :: real where "RSSI_NEAR = - 30"
definition RSSI_FAR :: real where "RSSI_FAR = - 90"
definition BASE_SAMPLES :: int where "BASE_SAMPLES = 24"
definition SAMPLES_PER_MOTION :: int where "SAMPLES_PER_MOTION = 10"
definition SAMPLES_PER_DRSSI :: int where "SAMPLES_PER_DRSSI = 30"
definition MAX_SAMPLES_PER :: int where "MAX_SAMPLES_PER = 600"
definition JITTER_ARC_DEG :: real where "JITTER_ARC_DEG = 22"
definition JITTER_R_FRAC :: real where "JITTER_R_FRAC = 1 / 10"
definition RAY_STEPS_PER_M :: real where "RAY_STEPS_PER_M = 9"
definition FAST_DECAY_PER_SEC :: real where "FAST_DECAY_PER_SEC = 88 / 100"
definition SLOW_DECAY_PER_SEC :: real where "SLOW_DECAY_PER_SEC = 995 / 1000"
definition SLOW_GAIN :: real where "SLOW_GAIN = 1 / 4"
definition BORDER :: bool where "BORDER = True"
definition HEADER_LINES :: int where "HEADER_LINES = 2"
definition CHAR_FG_RAMP :: "int list" where "CHAR_FG_RAMP = [240, 71, 184, 208, 196]"
definition HISTO_EQ_FRACTION :: real where "HISTO_EQ_FRACTION = 95 / 100"
definition EMA_RSSI_ALPHA :: real where "EMA_RSSI_ALPHA = 35 / 100"
definition EMA_MOTION_ALPHA :: real where "EMA_MOTION_ALPHA = 4 / 10"
definition DRSSI_CLAMP :: real where "DRSSI_CLAMP = 8"

section \<open>Projection and colour\<close>

text \<open>
  \<^verbatim>\<open>rssi_to_radius_pix(rssi, Rsub)\<close>. The strength is a float read from the input; the
  radius bound is the canvas's integer \<open>R\<close>.
\<close>

definition rssi_to_radius_pix :: "pyfloat \<Rightarrow> real \<Rightarrow> pyfloat" where
  "rssi_to_radius_pix rssi Rsub =
     (let rssi1 = (if f_gt rssi (Num RSSI_NEAR) then Num RSSI_NEAR else rssi);
          rssi2 = (if f_lt rssi1 (Num RSSI_FAR) then Num RSSI_FAR else rssi1);
          t = f_divr (f_sub (Num RSSI_NEAR) rssi2) (RSSI_NEAR - RSSI_FAR)
      in f_add (Num 2) (f_mul t (Num (Rsub - 4))))"

text \<open>The escape sequence \<^verbatim>\<open>"\033[38;5;{c}m"\<close>.\<close>

definition sgr_fg :: "int \<Rightarrow> ustr" where
  "sgr_fg c = 27 # asc ''[38;5;'' @ str_int c @ asc ''m''"

definition color_for :: "real \<Rightarrow> error + ustr" where
  "color_for u =
     (if u \<le> 0 then Inr (sgr_fg 240)
      else if u \<ge> 1 then
        (case py_get CHAR_FG_RAMP (- 1) of Inl e \<Rightarrow> Inl e | Inr c \<Rightarrow> Inr (sgr_fg c))
      else
        (let segs = int (length CHAR_FG_RAMP) - 1;
             x = u * real_of_int segs;
             i = py_int x;
             t = x - real_of_int i
         in case py_get CHAR_FG_RAMP i of Inl e \<Rightarrow> Inl e | Inr c1 \<Rightarrow>
            (case py_get CHAR_FG_RAMP (min (i + 1) segs) of Inl e \<Rightarrow> Inl e | Inr c2 \<Rightarrow>
               Inr (sgr_fg (if t > 1 / 2 then c2 else c1)))))"

text \<open>\<^verbatim>\<open>clamp(a, lo, hi)\<close>, on integers and finite floats, and on a float that may be special.\<close>

definition clamp :: "'a::linorder \<Rightarrow> 'a \<Rightarrow> 'a \<Rightarrow> 'a" where
  "clamp a lo hi = (if a < lo then lo else (if a > hi then hi else a))"

definition f_clamp :: "pyfloat \<Rightarrow> real \<Rightarrow> real \<Rightarrow> pyfloat" where
  "f_clamp a lo hi = (if f_lt a (Num lo) then Num lo else (if f_gt a (Num hi) then Num hi else a))"

text \<open>
  A loop whose body may raise: the first exception ends it, as it ends the program's
  \<^verbatim>\<open>for\<close> loop.
\<close>

fun foldE :: "('a \<Rightarrow> 's \<Rightarrow> error + 's) \<Rightarrow> 'a list \<Rightarrow> 's \<Rightarrow> error + 's" where
  "foldE f [] s = Inr s"
| "foldE f (x # xs) s = (case f x s of Inl e \<Rightarrow> Inl e | Inr s' \<Rightarrow> foldE f xs s')"

text \<open>\<^verbatim>\<open>xs[i] += v\<close>: one read and one write at the same Python index.\<close>

definition py_add_at :: "'a::plus list \<Rightarrow> int \<Rightarrow> 'a \<Rightarrow> error + 'a list" where
  "py_add_at xs i v = (case py_get xs i of Inl e \<Rightarrow> Inl e | Inr old \<Rightarrow> py_set xs i (old + v))"

text \<open>Float division \<^verbatim>\<open>a / b\<close> of two finite floats raises on a zero divisor.\<close>

definition py_div :: "real \<Rightarrow> real \<Rightarrow> error + real" where
  "py_div a b = (if b = 0 then Inl ZeroDivisionError else Inr (a / b))"

section \<open>The random source\<close>

text \<open>
  \<^verbatim>\<open>random.Random\<close> is library code. Its state is taken as a stream of raw draws, any
  stream at all; the two methods the program calls shape a draw as the library
  documents them: \<^verbatim>\<open>random()\<close> is a 53-bit integer over \<open>2^53\<close>, \<^verbatim>\<open>uniform(a, b)\<close> is
  \<^verbatim>\<open>a + (b - a) * random()\<close>, and \<^verbatim>\<open>randint(a, b)\<close> is \<open>a\<close> plus a draw below \<open>b - a + 1\<close>.
\<close>

type_synonym rng = "nat stream"

definition rng_random :: "rng \<Rightarrow> real \<times> rng" where
  "rng_random g = (real (shd g mod 2 ^ 53) / 2 ^ 53, stl g)"

definition uniform :: "rng \<Rightarrow> real \<Rightarrow> real \<Rightarrow> real \<times> rng" where
  "uniform g a b = (let (u, g') = rng_random g in (a + (b - a) * u, g'))"

definition randint :: "rng \<Rightarrow> int \<Rightarrow> int \<Rightarrow> int \<times> rng" where
  "randint g a b = (a + int (shd g mod nat (b - a + 1)), stl g)"

definition radians :: "real \<Rightarrow> real" where
  "radians d = d * pi / 180"

section \<open>The canvas\<close>

text \<open>
  \<^verbatim>\<open>term_dims()\<close>; the size \<^verbatim>\<open>shutil.get_terminal_size\<close> reports is the argument.
\<close>

definition term_dims :: "int \<Rightarrow> int \<Rightarrow> int \<times> int \<times> int \<times> int \<times> int \<times> int \<times> int \<times> int" where
  "term_dims columns lines =
     (let W = max 120 columns;
          H = max 40 lines;
          l = (if BORDER then 1 else 0);
          r = (if BORDER then 1 else 0);
          t = HEADER_LINES + (if BORDER then 1 else 0);
          b = (if BORDER then 1 else 0);
          w_chars = W - l - r;
          h_chars = H - t - b;
          w_sub = w_chars * 2;
          h_sub = h_chars * 4
      in (W, H, w_chars, h_chars, w_sub, h_sub, l, t))"

text \<open>
  \<^verbatim>\<open>class BrailleCanvas\<close>. The field \<^verbatim>\<open>top\<close> is \<open>top_c\<close> here, since \<open>top\<close> is a constant
  of HOL.
\<close>

record canvas =
  W :: int
  H :: int
  wc :: int
  hc :: int
  ws :: int
  hs :: int
  left :: int
  top_c :: int
  cx :: int
  cy :: int
  R :: int
  fast :: "real list"
  slow :: "real list"
  hit :: "int list"
  cell_mask :: "bool list"
  last_fast :: real
  last_slow :: real

text \<open>
  The two loops of \<^verbatim>\<open>resize\<close> that fill \<^verbatim>\<open>cell_mask\<close>. The list has \<open>wc * hc\<close> entries
  and the loops run over \<open>j < hc\<close>, \<open>i < wc\<close>, so the index \<open>j * wc + i\<close> is in range.
\<close>

definition mask_cell :: "int \<Rightarrow> int \<Rightarrow> int \<Rightarrow> int \<Rightarrow> int \<Rightarrow> int \<Rightarrow> bool" where
  "mask_cell wc' cx' cy' R' j i =
     (let cx_sub = i * 2 + 1;
          cy_sub = j * 4 + 2;
          dx = cx_sub - cx';
          dy = cy_sub - cy'
      in dx * dx + dy * dy \<le> R' * R')"

definition mask_row :: "int \<Rightarrow> int \<Rightarrow> int \<Rightarrow> int \<Rightarrow> nat \<Rightarrow> bool list \<Rightarrow> bool list" where
  "mask_row wc' cx' cy' R' j m =
     fold (\<lambda>i m. m[nat (int j * wc' + int i) := mask_cell wc' cx' cy' R' (int j) (int i)])
       [0..<nat wc'] m"

definition build_mask :: "int \<Rightarrow> int \<Rightarrow> int \<Rightarrow> int \<Rightarrow> int \<Rightarrow> bool list" where
  "build_mask wc' hc' cx' cy' R' =
     fold (mask_row wc' cx' cy' R') [0..<nat hc'] (replicate (nat (wc' * hc')) True)"

definition resize :: "int \<Rightarrow> int \<Rightarrow> canvas \<Rightarrow> canvas" where
  "resize columns lines cv =
     (case term_dims columns lines of (W', H', wc', hc', ws', hs', left', top') \<Rightarrow>
        (let cx' = ws' div 2;
             cy' = hs' div 2;
             R' = min cx' cy' - 4
         in cv\<lparr>W := W', H := H', wc := wc', hc := hc', ws := ws', hs := hs',
               left := left', top_c := top', cx := cx', cy := cy', R := R',
               fast := replicate (nat (ws' * hs')) 0,
               slow := replicate (nat (ws' * hs')) 0,
               hit := replicate (nat (ws' * hs')) 0,
               cell_mask := build_mask wc' hc' cx' cy' R'\<rparr>))"

text \<open>
  \<^verbatim>\<open>BrailleCanvas()\<close>: \<^verbatim>\<open>resize\<close>, then both timestamps set to \<^verbatim>\<open>time.time()\<close>, the
  argument \<open>now\<close>.
\<close>

definition new_canvas :: "int \<Rightarrow> int \<Rightarrow> real \<Rightarrow> canvas" where
  "new_canvas columns lines now =
     resize columns lines
       \<lparr>W = 0, H = 0, wc = 0, hc = 0, ws = 0, hs = 0, left = 0, top_c = 0, cx = 0, cy = 0,
        R = 0, fast = [], slow = [], hit = [], cell_mask = [], last_fast = now, last_slow = now\<rparr>"

definition idx_of :: "canvas \<Rightarrow> int \<Rightarrow> int \<Rightarrow> int" where
  "idx_of cv x y = y * ws cv + x"

definition in_circle_sub :: "canvas \<Rightarrow> int \<Rightarrow> int \<Rightarrow> bool" where
  "in_circle_sub cv x y =
     (let dx = x - cx cv; dy = y - cy cv in dx * dx + dy * dy \<le> R cv * R cv)"

definition decay :: "canvas \<Rightarrow> real \<Rightarrow> canvas" where
  "decay cv now =
     (let dtf = now - last_fast cv;
          cv1 = (if dtf > 0
                 then (let f = FAST_DECAY_PER_SEC powr dtf
                       in cv\<lparr>fast := map (\<lambda>v. v * f) (fast cv),
                             hit := map (\<lambda>h. py_int (real_of_int h * f)) (hit cv),
                             last_fast := now\<rparr>)
                 else cv);
          dts = now - last_slow cv1
      in if dts > 0
         then (let g = SLOW_DECAY_PER_SEC powr dts
               in cv1\<lparr>slow := map (\<lambda>v. v * g) (slow cv1), last_slow := now\<rparr>)
         else cv1)"

text \<open>
  The probing loop of \<^verbatim>\<open>splat_subpixel\<close>: \<open>n\<close> rounds are left, \<open>(best_i, best_h)\<close> is the
  best candidate so far. \<^verbatim>\<open>continue\<close> goes to the next round, \<^verbatim>\<open>break\<close> returns.
\<close>

fun probe :: "canvas \<Rightarrow> int \<Rightarrow> int \<Rightarrow> nat \<Rightarrow> int \<times> int \<Rightarrow> rng \<Rightarrow> error + ((int \<times> int) \<times> rng)" where
  "probe cv x y 0 best g = Inr (best, g)"
| "probe cv x y (Suc n) best g =
     (let (d1, g1) = randint g (- 1) 1;
          nx = x + d1;
          (d2, g2) = randint g1 (- 1) 1;
          ny = y + d2
      in if nx < 0 \<or> nx \<ge> ws cv \<or> ny < 0 \<or> ny \<ge> hs cv then probe cv x y n best g2
         else if \<not> in_circle_sub cv nx ny then probe cv x y n best g2
         else (let ii = idx_of cv nx ny
               in case py_get (hit cv) ii of
                    Inl e \<Rightarrow> Inl e
                  | Inr hh \<Rightarrow>
                      if hh < snd best
                      then (if hh = 0 then Inr ((ii, hh), g2) else probe cv x y n (ii, hh) g2)
                      else probe cv x y n best g2))"

definition splat_subpixel :: "canvas \<Rightarrow> int \<Rightarrow> int \<Rightarrow> real \<Rightarrow> rng \<Rightarrow> error + (canvas \<times> rng)" where
  "splat_subpixel cv x y ink g =
     (if x < 0 \<or> x \<ge> ws cv \<or> y < 0 \<or> y \<ge> hs cv then Inr (cv, g)
      else if \<not> in_circle_sub cv x y then Inr (cv, g)
      else (let idx = idx_of cv x y
            in case py_get (hit cv) idx of
                 Inl e \<Rightarrow> Inl e
               | Inr h0 \<Rightarrow>
                  (case probe cv x y 4 (idx, h0) g of
                     Inl e \<Rightarrow> Inl e
                   | Inr ((best_i, best_h), g') \<Rightarrow>
                      (case py_add_at (fast cv) best_i ink of
                         Inl e \<Rightarrow> Inl e
                       | Inr fast' \<Rightarrow>
                          (case py_add_at (slow cv) best_i (ink * SLOW_GAIN) of
                             Inl e \<Rightarrow> Inl e
                           | Inr slow' \<Rightarrow>
                              (case py_add_at (hit cv) best_i 1 of
                                 Inl e \<Rightarrow> Inl e
                               | Inr hit' \<Rightarrow>
                                  Inr (cv\<lparr>fast := fast', slow := slow', hit := hit'\<rparr>, g')))))))"

text \<open>One round of the loop of \<^verbatim>\<open>deposit_ray\<close>, for the step \<open>s\<close>.\<close>

definition ray_step ::
  "real \<Rightarrow> real \<Rightarrow> int \<Rightarrow> int \<Rightarrow> real \<Rightarrow> int \<Rightarrow> canvas \<times> rng \<Rightarrow> error + (canvas \<times> rng)" where
  "ray_step theta r_pix start steps k s st =
     (case st of (cv, g) \<Rightarrow>
        (let t = real_of_int s / real_of_int (max 1 (steps - 1));
             r = real_of_int start + t * (r_pix - real_of_int start);
             (u1, g1) = uniform g (- JITTER_ARC_DEG) JITTER_ARC_DEG;
             dth = radians u1;
             (u2, g2) = uniform g1 (- JITTER_R_FRAC) JITTER_R_FRAC;
             rr = r * (1 + u2);
             th = theta + dth;
             x = py_round (real_of_int (cx cv) + rr * cos th);
             y = py_round (real_of_int (cy cv) + rr * sin th)
         in if 0 \<le> x \<and> x < ws cv \<and> 0 \<le> y \<and> y < hs cv \<and> in_circle_sub cv x y
            then splat_subpixel cv x y k g2
            else Inr (cv, g2)))"

definition ray_steps :: "real \<Rightarrow> int" where
  "ray_steps r_pix =
     max 1 (py_int ((r_pix - real_of_int (py_int (2 / 10 * r_pix))) * (RAY_STEPS_PER_M / 8)))"

text \<open>
  \<^verbatim>\<open>deposit_ray(theta, r_pix, k, rng)\<close>. Its first statement is
  \<^verbatim>\<open>start = int(0.2 * r_pix)\<close>, which raises when the radius is not finite.
\<close>

fun deposit_ray :: "canvas \<Rightarrow> real \<Rightarrow> pyfloat \<Rightarrow> real \<Rightarrow> rng \<Rightarrow> error + (canvas \<times> rng)" where
  "deposit_ray cv theta (Num r_pix) k g =
     (let start = py_int (2 / 10 * r_pix);
          steps = ray_steps r_pix
      in foldE (ray_step theta r_pix start steps k) (map int [0..<nat steps]) (cv, g))"
| "deposit_ray cv theta PosInf k g = Inl OverflowError"
| "deposit_ray cv theta NegInf k g = Inl OverflowError"
| "deposit_ray cv theta NaN k g = Inl ValueError"

section \<open>The frame renderer\<close>

text \<open>
  The adaptive scale of \<^verbatim>\<open>render\<close>, for the non-empty list \<open>merged\<close>: the value at the
  configured fraction of the sorted values, replaced when it is at most \<open>1e-9\<close>.
\<close>

definition render_q :: "real list \<Rightarrow> error + real" where
  "render_q merged =
     (let vals = sort merged;
          q_idx0 = py_int (HISTO_EQ_FRACTION * real (length vals)) - 1;
          q_idx = clamp q_idx0 0 (int (length vals) - 1)
      in case (if vals \<noteq> [] then py_get vals q_idx else Inr 1) of
           Inl e \<Rightarrow> Inl e
         | Inr q \<Rightarrow>
             if q \<le> 1 / 10 ^ 9
             then (case py_get vals (- 1) of Inl e \<Rightarrow> Inl e | Inr top_v \<Rightarrow> Inr (max top_v 1))
             else Inr q)"

text \<open>The eight tests that map the subcell \<open>(sx, sy)\<close> to its Braille dot bit.\<close>

definition set_dot :: "int \<Rightarrow> int \<Rightarrow> nat \<Rightarrow> nat" where
  "set_dot sx sy bits =
     (let b1 = (if sx = 0 \<and> sy = 0 then bits OR 0x01 else bits);
          b2 = (if sx = 0 \<and> sy = 1 then b1 OR 0x02 else b1);
          b3 = (if sx = 0 \<and> sy = 2 then b2 OR 0x04 else b2);
          b4 = (if sx = 0 \<and> sy = 3 then b3 OR 0x40 else b3);
          b5 = (if sx = 1 \<and> sy = 0 then b4 OR 0x08 else b4);
          b6 = (if sx = 1 \<and> sy = 1 then b5 OR 0x10 else b5);
          b7 = (if sx = 1 \<and> sy = 2 then b6 OR 0x20 else b6)
      in (if sx = 1 \<and> sy = 3 then b7 OR 0x80 else b7))"

text \<open>The value \<open>v\<close> of a subpixel: \<^verbatim>\<open>merged[idx] / q\<close>, cut at \<open>1\<close>.\<close>

definition norm_value :: "real list \<Rightarrow> real \<Rightarrow> int \<Rightarrow> error + real" where
  "norm_value merged q idx =
     (case py_get merged idx of
        Inl e \<Rightarrow> Inl e
      | Inr m \<Rightarrow>
         (case py_div m q of
            Inl e \<Rightarrow> Inl e
          | Inr v \<Rightarrow> Inr (if v > 1 then 1 else v)))"

definition subpixel_step ::
  "canvas \<Rightarrow> real list \<Rightarrow> real \<Rightarrow> int \<Rightarrow> int \<Rightarrow> int \<times> int \<Rightarrow> nat \<times> real \<Rightarrow> error + (nat \<times> real)" where
  "subpixel_step cv merged q base_x base_y p st =
     (case p of (sy, sx) \<Rightarrow> case st of (bits, agg) \<Rightarrow>
        (let x = base_x + sx;
             y = base_y + sy;
             idx = idx_of cv x y
         in case norm_value merged q idx of
              Inl e \<Rightarrow> Inl e
            | Inr v \<Rightarrow> Inr (if v > 12 / 100 then set_dot sx sy bits else bits, agg + v)))"

definition subcells :: "(int \<times> int) list" where
  "subcells = concat (map (\<lambda>sy. map (\<lambda>sx. (sy, sx)) [0, 1]) [0, 1, 2, 3])"

text \<open>The text of the cell in column \<open>i\<close> of row \<open>j\<close>.\<close>

definition render_cell :: "canvas \<Rightarrow> real list \<Rightarrow> real \<Rightarrow> int \<Rightarrow> int \<Rightarrow> error + ustr" where
  "render_cell cv merged q j i =
     (case py_get (cell_mask cv) (j * wc cv + i) of
        Inl e \<Rightarrow> Inl e
      | Inr inside \<Rightarrow>
          if \<not> inside then Inr (asc '' '')
          else (let base_x = i * 2; base_y = j * 4
                in case foldE (subpixel_step cv merged q base_x base_y) subcells (0, 0) of
                     Inl e \<Rightarrow> Inl e
                   | Inr (bits, agg) \<Rightarrow>
                      (let u = clamp (agg / 8) 0 1
                       in case color_for u of
                            Inl e \<Rightarrow> Inl e
                          | Inr col \<Rightarrow>
                              Inr (col @ (if bits \<noteq> 0 then [0x2800 + bits] else asc '' '')))))"

definition render_row :: "canvas \<Rightarrow> real list \<Rightarrow> real \<Rightarrow> int \<Rightarrow> ustr \<Rightarrow> error + ustr" where
  "render_row cv merged q j out =
     (case foldE (\<lambda>i line. case render_cell cv merged q j i of
                             Inl e \<Rightarrow> Inl e
                           | Inr cell \<Rightarrow> Inr (line @ cell))
             (map int [0..<nat (wc cv)]) [] of
        Inl e \<Rightarrow> Inl e
      | Inr line \<Rightarrow>
          Inr (out @ (if BORDER then [0x2502] else []) @ line @ (27 # asc ''[0m'')
                   @ (if BORDER then [0x2502] else []) @ asc [CHR 0x0A]))"

text \<open>
  \<^verbatim>\<open>render()\<close>; \<open>stamp\<close> is the text \<^verbatim>\<open>time.strftime\<close> returns. \<^verbatim>\<open>zip\<close> stops at the
  shorter layer.
\<close>

definition render :: "canvas \<Rightarrow> ustr \<Rightarrow> error + ustr" where
  "render cv stamp =
     (let merged = map (\<lambda>(f, s). f + s) (zip (fast cv) (slow cv))
      in if merged = [] then Inr []
         else (case render_q merged of
                 Inl e \<Rightarrow> Inl e
               | Inr q \<Rightarrow>
                  (let out0 = (27 # asc ''[H'') @ (27 # asc ''[J'');
                       out1 = out0 @ asc '' Wi-Fi Room Mapper '' @ [0x2014] @ asc '' '' @ stamp
                                 @ asc ''   near'' @ [0x2248] @ str_int (py_int RSSI_NEAR)
                                 @ asc '' dBm  far'' @ [0x2248] @ str_int (py_int RSSI_FAR)
                                 @ asc '' dBm    fps'' @ [0x2248] @ str_int (py_int TARGET_FPS)
                                 @ asc [CHR 0x0A];
                       out2 = out1 @ asc '' Fast = motion (bright),  Slow = persistent structure (dim). Ray-painted paths; density adaptively scaled.''
                                 @ asc [CHR 0x0A];
                       out3 = (if BORDER
                               then out2 @ [0x250C] @ replicate (nat (wc cv)) 0x2500 @ [0x2510]
                                      @ asc [CHR 0x0A]
                               else out2)
                   in case foldE (render_row cv merged q) (map int [0..<nat (hc cv)]) out3 of
                        Inl e \<Rightarrow> Inl e
                      | Inr out4 \<Rightarrow>
                          Inr (if BORDER
                               then out4 @ [0x2514] @ replicate (nat (wc cv)) 0x2500 @ [0x2518]
                                      @ asc [CHR 0x0A]
                               else out4))))"

section \<open>The engine\<close>

text \<open>
  The per-MAC dictionary \<^verbatim>\<open>{rssi_ema, motion_ema, last_t, last_rssi}\<close>. A MAC that is not
  in \<open>state\<close> is one whose entry would be created with every field \<^verbatim>\<open>None\<close>.
\<close>

record mac_state =
  rssi_ema :: pyfloat
  motion_ema :: pyfloat
  last_t :: real
  last_rssi :: pyfloat

record engine =
  cv :: canvas
  last_draw :: real
  min_dt :: real
  seed_counter :: int
  state :: "string \<rightharpoonup> mac_state"

text \<open>
  What the program takes from Python's library and the machine: \<^verbatim>\<open>float()\<close> on a field
  (\<open>None\<close> is ValueError), the MD5 digest of a MAC as a number, and the generator
  \<^verbatim>\<open>random.Random(hash((mac, seed_counter, n)))\<close>.
\<close>

record env =
  float_of :: "string \<Rightarrow> pyfloat option"
  md5_int :: "string \<Rightarrow> nat"
  seed_rng :: "string \<Rightarrow> int \<Rightarrow> int \<Rightarrow> rng"

definition mac_angle :: "env \<Rightarrow> string \<Rightarrow> real" where
  "mac_angle ev mac = real (md5_int ev mac mod 360) * pi / 180"

text \<open>
  \<^verbatim>\<open>Engine()\<close>, without its terminal output and signal handler; \<open>now\<close> is the time the
  canvas is built at.
\<close>

definition new_engine :: "int \<Rightarrow> int \<Rightarrow> real \<Rightarrow> engine" where
  "new_engine columns lines now =
     \<lparr>cv = new_canvas columns lines now, last_draw = 0, min_dt = 1 / TARGET_FPS,
      seed_counter = 0, state = Map.empty\<rparr>"

text \<open>
  The first block of \<^verbatim>\<open>ingest\<close>: the smoothed values and \<^verbatim>\<open>d_rs\<close>. The divisor \<open>dt\<close> is
  at least \<open>1e-3\<close>.
\<close>

definition ema_update :: "mac_state option \<Rightarrow> pyfloat \<Rightarrow> pyfloat \<Rightarrow> real \<Rightarrow> mac_state \<times> pyfloat" where
  "ema_update old rssi motion now =
     (case old of
        None \<Rightarrow>
          (\<lparr>rssi_ema = rssi, motion_ema = motion, last_t = now, last_rssi = rssi\<rparr>, Num 0)
      | Some st \<Rightarrow>
          (let r' = f_add (f_mul (Num EMA_RSSI_ALPHA) rssi)
                      (f_mul (Num (1 - EMA_RSSI_ALPHA)) (rssi_ema st));
               m' = f_add (f_mul (Num EMA_MOTION_ALPHA) motion)
                      (f_mul (Num (1 - EMA_MOTION_ALPHA)) (motion_ema st));
               dt = max (1 / 1000) (now - last_t st);
               d_rs = f_divr (f_sub rssi (last_rssi st)) dt
           in (\<lparr>rssi_ema = r', motion_ema = m', last_t = now, last_rssi = rssi\<rparr>, d_rs)))"

definition motion_unit :: "pyfloat \<Rightarrow> pyfloat" where
  "motion_unit m_ema = f_max (Num 0) m_ema"

definition drssi_unit :: "pyfloat \<Rightarrow> pyfloat" where
  "drssi_unit d_rs = f_divr (f_clamp (f_abs d_rs) 0 DRSSI_CLAMP) DRSSI_CLAMP"

text \<open>
  The sample count \<open>k\<close>. The two \<^verbatim>\<open>int()\<close> calls are evaluated left to right, and either
  may raise.
\<close>

definition sample_count :: "pyfloat \<Rightarrow> pyfloat \<Rightarrow> error + int" where
  "sample_count motion_u drssi_u =
     (case f_int (f_mul (Num (real_of_int SAMPLES_PER_MOTION)) motion_u) of
        Inl e \<Rightarrow> Inl e
      | Inr a \<Rightarrow>
         (case f_int (f_mul (Num (real_of_int SAMPLES_PER_DRSSI)) drssi_u) of
            Inl e \<Rightarrow> Inl e
          | Inr b \<Rightarrow>
             (let k = BASE_SAMPLES + a + b
              in Inr (if k > MAX_SAMPLES_PER then MAX_SAMPLES_PER else k))))"

definition ink_per :: "pyfloat \<Rightarrow> pyfloat \<Rightarrow> int \<Rightarrow> pyfloat" where
  "ink_per motion_u drssi_u k =
     f_divr (f_add (f_mul (Num (9 / 10)) motion_u) (f_mul (Num (1 / 10)) drssi_u))
       (real_of_int (max 1 k))"

text \<open>One round of the deposit loop of \<^verbatim>\<open>ingest\<close>.\<close>

definition ingest_step ::
  "real \<Rightarrow> pyfloat \<Rightarrow> real \<Rightarrow> nat \<Rightarrow> canvas \<times> rng \<Rightarrow> error + (canvas \<times> rng)" where
  "ingest_step theta r_pix ink n st =
     (case st of (c, g) \<Rightarrow>
        (let (u1, g1) = uniform g (- JITTER_ARC_DEG) JITTER_ARC_DEG;
             dth = radians u1;
             (u2, g2) = uniform g1 (- JITTER_R_FRAC) JITTER_R_FRAC;
             rr = f_mul r_pix (Num (1 + u2))
         in deposit_ray c (theta + dth) rr ink g2))"

text \<open>
  \<^verbatim>\<open>ingest(mac, rssi, motion)\<close>. \<open>now\<close> and \<open>now2\<close> are its two readings of
  \<^verbatim>\<open>time.time()\<close>. Once \<open>k\<close> is computed both units are finite (a special value has
  raised in \<^verbatim>\<open>int()\<close>), so the ink is a finite float; the last case is never taken.
\<close>

definition ingest :: "env \<Rightarrow> engine \<Rightarrow> string \<Rightarrow> pyfloat \<Rightarrow> pyfloat \<Rightarrow> real \<Rightarrow> real \<Rightarrow> error + engine" where
  "ingest ev eng mac rssi motion now now2 =
     (case ema_update (state eng mac) rssi motion now of (st, d_rs) \<Rightarrow>
        (let motion_u = motion_unit (motion_ema st);
             drssi_u = drssi_unit d_rs
         in case sample_count motion_u drssi_u of
              Inl e \<Rightarrow> Inl e
            | Inr k \<Rightarrow>
               (let theta = mac_angle ev mac;
                    r_pix = rssi_to_radius_pix (rssi_ema st) (real_of_int (R (cv eng)));
                    g = seed_rng ev mac (seed_counter eng) (py_int (now2 * 5))
                in case ink_per motion_u drssi_u k of
                     Num ink \<Rightarrow>
                       (case foldE (ingest_step theta r_pix ink) [0..<nat k] (cv eng, g) of
                          Inl e \<Rightarrow> Inl e
                        | Inr (c, g') \<Rightarrow>
                            Inr (eng\<lparr>cv := c, seed_counter := seed_counter eng + 1,
                                     state := (state eng)(mac \<mapsto> st)\<rparr>))
                   | _ \<Rightarrow> Inl ValueError)))"

text \<open>
  \<^verbatim>\<open>tick()\<close>: the engine after it and the frame it wrote, if it drew one.
\<close>

definition tick :: "engine \<Rightarrow> real \<Rightarrow> ustr \<Rightarrow> error + (engine \<times> ustr option)" where
  "tick eng now stamp =
     (let eng1 = eng\<lparr>cv := decay (cv eng) now\<rparr>
      in if now - last_draw eng1 \<ge> min_dt eng1
         then (case render (cv eng1) stamp of
                 Inl e \<Rightarrow> Inl e
               | Inr frame \<Rightarrow> Inr (eng1\<lparr>last_draw := now\<rparr>, Some frame))
         else Inr (eng1, None))"

section \<open>The input loop\<close>

text \<open>
  Lines are ASCII text. \<^verbatim>\<open>str.strip()\<close> drops the white space of both ends,
  \<^verbatim>\<open>str.split(",")\<close> cuts at every comma, \<^verbatim>\<open>str.lower()\<close> lowers the letters.
\<close>

definition is_space :: "char \<Rightarrow> bool" where
  "is_space c = (let n = (of_char c :: nat) in (9 \<le> n \<and> n \<le> 13) \<or> (28 \<le> n \<and> n \<le> 32))"

definition strip :: "string \<Rightarrow> string" where
  "strip s = rev (dropWhile is_space (rev (dropWhile is_space s)))"

fun split_on :: "char \<Rightarrow> string \<Rightarrow> string list" where
  "split_on c [] = [[]]"
| "split_on c (x # xs) =
     (if x = c then [] # split_on c xs
      else (case split_on c xs of [] \<Rightarrow> [[x]] | p # ps \<Rightarrow> (x # p) # ps))"

definition lower_char :: "char \<Rightarrow> char" where
  "lower_char c =
     (let n = (of_char c :: nat) in if 65 \<le> n \<and> n \<le> 90 then char_of (n + 32) else c)"

definition lower :: "string \<Rightarrow> string" where
  "lower s = map lower_char s"

definition startswith :: "string \<Rightarrow> string \<Rightarrow> bool" where
  "startswith s p = (take (length p) s = p)"

text \<open>The clock readings one line takes, and the text of the time for a frame.\<close>

record clock =
  t_ingest :: real
  t_seed :: real
  t_tick :: real
  stamp_of :: ustr

text \<open>The body of the loop of \<^verbatim>\<open>main\<close> for one line.\<close>

definition process_line :: "env \<Rightarrow> engine \<Rightarrow> string \<Rightarrow> clock \<Rightarrow> error + (engine \<times> ustr option)" where
  "process_line ev eng line ck =
     (let s = strip line
      in if s = [] \<or> startswith s ''cnt'' then tick eng (t_tick ck) (stamp_of ck)
         else (let parts = split_on CHR '','' s
               in if length parts < 3 then tick eng (t_tick ck) (stamp_of ck)
                  else (let mac = lower (strip (parts ! 0))
                        in case float_of ev (parts ! 1) of
                             None \<Rightarrow> tick eng (t_tick ck) (stamp_of ck)
                           | Some rssi \<Rightarrow>
                              (case float_of ev (parts ! 2) of
                                 None \<Rightarrow> tick eng (t_tick ck) (stamp_of ck)
                               | Some motion \<Rightarrow>
                                  (case ingest ev eng mac rssi motion (t_ingest ck) (t_seed ck) of
                                     Inl e \<Rightarrow> Inl e
                                   | Inr eng' \<Rightarrow> tick eng' (t_tick ck) (stamp_of ck))))))"

text \<open>The loop over the lines of the input, collecting the frames written.\<close>

definition main_step ::
  "env \<Rightarrow> string \<times> clock \<Rightarrow> engine \<times> ustr list \<Rightarrow> error + (engine \<times> ustr list)" where
  "main_step ev lc st =
     (case lc of (line, ck) \<Rightarrow> case st of (eng, frames) \<Rightarrow>
        (case process_line ev eng line ck of
           Inl e \<Rightarrow> Inl e
         | Inr (eng', None) \<Rightarrow> Inr (eng', frames)
         | Inr (eng', Some frame) \<Rightarrow> Inr (eng', frames @ [frame])))"

definition main_loop :: "env \<Rightarrow> engine \<Rightarrow> (string \<times> clock) list \<Rightarrow> error + (engine \<times> ustr list)" where
  "main_loop ev eng input = foldE (main_step ev) input (eng, [])"

section \<open>Properties to state\<close>

text \<open>
  The shape of a canvas that \<^verbatim>\<open>resize\<close> builds and every method keeps: two subpixel
  columns and four subpixel rows per character cell, and one entry per subpixel in each
  layer and one per cell in the mask.
\<close>

definition canvas_wf :: "canvas \<Rightarrow> bool" where
  "canvas_wf c =
     (0 \<le> wc c \<and> 0 \<le> hc c \<and> ws c = wc c * 2 \<and> hs c = hc c * 4 \<and>
      length (fast c) = nat (ws c * hs c) \<and> length (slow c) = nat (ws c * hs c) \<and>
      length (hit c) = nat (ws c * hs c) \<and> length (cell_mask c) = nat (wc c * hc c))"

definition canvas_nonneg :: "canvas \<Rightarrow> bool" where
  "canvas_nonneg c =
     ((\<forall>v \<in> set (fast c). 0 \<le> v) \<and> (\<forall>v \<in> set (slow c). 0 \<le> v) \<and> (\<forall>h \<in> set (hit c). 0 \<le> h))"

text \<open>
  What a deposit leaves alone: the geometry and the mask. And what it keeps: the shape,
  and the non-negative layers of a canvas that has them.
\<close>

definition same_geometry :: "canvas \<Rightarrow> canvas \<Rightarrow> bool" where
  "same_geometry c c' =
     (wc c' = wc c \<and> hc c' = hc c \<and> ws c' = ws c \<and> hs c' = hs c \<and> cx c' = cx c \<and>
      cy c' = cy c \<and> R c' = R c \<and> cell_mask c' = cell_mask c)"

definition kept :: "canvas \<Rightarrow> canvas \<Rightarrow> bool" where
  "kept c c' = (canvas_wf c' \<and> same_geometry c c' \<and> (canvas_nonneg c \<longrightarrow> canvas_nonneg c'))"

text \<open>The invariant of the engine's canvas; the radius of a built canvas is at least \<open>68\<close>.\<close>

definition engine_inv :: "engine \<Rightarrow> bool" where
  "engine_inv e = (canvas_wf (cv e) \<and> canvas_nonneg (cv e) \<and> 4 \<le> R (cv e))"







text \<open>
  Inputs for the examples: a library whose \<^verbatim>\<open>float()\<close> reads no text, a constant random
  source, and a clock.
\<close>

definition example_env :: env where
  "example_env = \<lparr>float_of = (\<lambda>s. None), md5_int = (\<lambda>s. 0), seed_rng = (\<lambda>mac c n. sconst 0)\<rparr>"


text \<open>A library whose \<^verbatim>\<open>float()\<close> reads the two numbers of the line \<^verbatim>\<open>aa,-40,inf\<close>.\<close>

definition reading_env :: env where
  "reading_env =
     \<lparr>float_of = (\<lambda>s. if s = ''inf'' then Some PosInf
                         else if s = ''-40'' then Some (Num (- 40)) else None),
      md5_int = (\<lambda>s. 0), seed_rng = (\<lambda>mac c n. sconst 0)\<rparr>"


section \<open>Python values: basic facts\<close>

lemma py_int_bounds: "0 \<le> x \<Longrightarrow> x < real_of_int n \<Longrightarrow> 0 \<le> py_int x \<and> py_int x < n"
  by (simp add: py_int_def floor_less_iff)

lemma py_int_nonneg: "0 \<le> x \<Longrightarrow> py_int x = \<lfloor>x\<rfloor>"
  by (simp add: py_int_def)

lemma py_get_in_range: "0 \<le> i \<Longrightarrow> i < int (length xs) \<Longrightarrow> py_get xs i = Inr (xs ! nat i)"
  by (simp add: py_get_def py_index_def)

lemma py_set_in_range: "0 \<le> i \<Longrightarrow> i < int (length xs) \<Longrightarrow> py_set xs i v = Inr (xs[nat i := v])"
  by (simp add: py_set_def py_index_def)

lemma py_add_at_in_range:
  "0 \<le> i \<Longrightarrow> i < int (length xs) \<Longrightarrow> py_add_at xs i v = Inr (xs[nat i := xs ! nat i + v])"
  by (simp add: py_add_at_def py_get_in_range py_set_in_range)

section \<open>Loops that may raise\<close>




section \<open>Projection\<close>

lemma rssi_to_radius_pix_Num:
  "rssi_to_radius_pix (Num s) Rsub =
     Num (2 + ((RSSI_NEAR - max RSSI_FAR (min RSSI_NEAR s)) / (RSSI_NEAR - RSSI_FAR)) * (Rsub - 4))"
  by (auto simp add: rssi_to_radius_pix_def f_gt_def f_sub_def Let_def RSSI_NEAR_def RSSI_FAR_def
        min_def max_def field_simps)




section \<open>Colour\<close>


text \<open>
  C10. \<^verbatim>\<open>color_for\<close> returns for every real \<open>u\<close>: the grey escape for \<open>u \<le> 0\<close>, the escape
  of the last palette entry for \<open>u \<ge> 1\<close>, and for \<open>0 < u < 1\<close> both indices it reads,
  \<open>i = int(u * segs)\<close> and \<open>min(i + 1, segs)\<close>, are positions of the palette, so neither
  read raises IndexError.
\<close>

theorem color_for_total:
  "(u \<le> 0 \<longrightarrow> color_for u = Inr (sgr_fg 240)) \<and>
   (1 \<le> u \<longrightarrow> color_for u = Inr (sgr_fg (last CHAR_FG_RAMP))) \<and>
   (0 < u \<and> u < 1 \<longrightarrow>
      (let segs = int (length CHAR_FG_RAMP) - 1; i = py_int (u * real_of_int segs); i2 = min (i + 1) segs
       in 0 \<le> i \<and> i < int (length CHAR_FG_RAMP) \<and> 0 \<le> i2 \<and> i2 < int (length CHAR_FG_RAMP) \<and>
          py_get CHAR_FG_RAMP i = Inr (CHAR_FG_RAMP ! nat i) \<and>
          py_get CHAR_FG_RAMP i2 = Inr (CHAR_FG_RAMP ! nat i2) \<and>
          color_for u = Inr (sgr_fg (if u * real_of_int segs - real_of_int i > 1 / 2
                                      then CHAR_FG_RAMP ! nat i2 else CHAR_FG_RAMP ! nat i)))) \<and>
   (\<exists>s. color_for u = Inr s)"
proof -
  have len: "int (length CHAR_FG_RAMP) = 5" by (simp add: CHAR_FG_RAMP_def)
  have lo: "u \<le> 0 \<Longrightarrow> color_for u = Inr (sgr_fg 240)" by (simp add: color_for_def)
  have hi: "1 \<le> u \<Longrightarrow> color_for u = Inr (sgr_fg (last CHAR_FG_RAMP))"
    by (simp add: color_for_def py_get_def py_index_def CHAR_FG_RAMP_def)
  have mid: "0 \<le> py_int (u * 4) \<and> py_int (u * 4) < 5" if "0 < u" "u < 1"
    using that by (intro py_int_bounds) auto
  have mid2: "0 \<le> min (py_int (u * 4) + 1) 4 \<and> min (py_int (u * 4) + 1) 4 < 5" if "0 < u" "u < 1"
    using mid[OF that] by auto
  have g1: "py_get CHAR_FG_RAMP (py_int (u * 4)) = Inr (CHAR_FG_RAMP ! nat (py_int (u * 4)))"
    if "0 < u" "u < 1"
    using mid[OF that] len by (intro py_get_in_range) auto
  have g2: "py_get CHAR_FG_RAMP (min (py_int (u * 4) + 1) 4)
              = Inr (CHAR_FG_RAMP ! nat (min (py_int (u * 4) + 1) 4))"
    if "0 < u" "u < 1"
    using mid2[OF that] len by (intro py_get_in_range) auto
  have md: "color_for u = Inr (sgr_fg (if u * 4 - real_of_int (py_int (u * 4)) > 1 / 2
              then CHAR_FG_RAMP ! nat (min (py_int (u * 4) + 1) 4)
              else CHAR_FG_RAMP ! nat (py_int (u * 4))))"
    if "0 < u" "u < 1"
    using that g1[OF that] g2[OF that] len by (simp add: color_for_def Let_def)
  have tot: "\<exists>s. color_for u = Inr s"
    using lo hi md by (cases "u \<le> 0"; cases "1 \<le> u") auto
  show ?thesis
    using lo hi mid mid2 g1 g2 md tot len by (simp add: Let_def)
qed

theorem color_for_total_witness:
  "(0::real) < 1 / 2 \<and> (1 / 2 :: real) < 1 \<and> color_for (1 / 2) = Inr (sgr_fg 184) \<and>
   color_for 0 = Inr (sgr_fg 240) \<and> color_for 1 = Inr (sgr_fg 196)"
  using color_for_total [of "1 / 2"] color_for_total [of 0] color_for_total [of 1]
  by (simp add: Let_def CHAR_FG_RAMP_def py_int_def)

section \<open>Signal conditioning\<close>

lemma motion_unit_Num: "motion_unit (Num m) = Num (max 0 m)"
  by (auto simp: motion_unit_def f_max_def f_gt_def)

lemma drssi_unit_Num: "drssi_unit (Num d) = Num (min 8 \<bar>d\<bar> / 8)"
  by (auto simp: drssi_unit_def f_clamp_def f_gt_def DRSSI_CLAMP_def)

lemma motion_unit_cases: "(\<exists>m. 0 \<le> m \<and> motion_unit x = Num m) \<or> motion_unit x = PosInf"
  by (cases x) (auto simp: motion_unit_def f_max_def f_gt_def)

lemma drssi_unit_cases: "(\<exists>d. 0 \<le> d \<and> d \<le> 1 \<and> drssi_unit x = Num d) \<or> drssi_unit x = NaN"
proof (cases x)
  case (Num a)
  have "0 \<le> min 8 \<bar>a\<bar> / 8" "min 8 \<bar>a\<bar> / 8 \<le> 1" by simp_all
  then show ?thesis using Num drssi_unit_Num[of a] by blast
qed (simp_all add: drssi_unit_def f_clamp_def f_gt_def DRSSI_CLAMP_def)

lemma sample_count_Num:
  "0 \<le> m \<Longrightarrow> 0 \<le> d \<Longrightarrow>
   sample_count (Num m) (Num d) = Inr (min 600 (24 + \<lfloor>10 * m\<rfloor> + \<lfloor>30 * d\<rfloor>))"
  by (simp add: sample_count_def py_int_def Let_def SAMPLES_PER_MOTION_def SAMPLES_PER_DRSSI_def
      BASE_SAMPLES_def MAX_SAMPLES_PER_def min_def)

lemma sample_count_range:
  assumes "0 \<le> m" "0 \<le> d"
  shows "\<exists>k. sample_count (Num m) (Num d) = Inr k \<and> 24 \<le> k \<and> k \<le> 600"
proof -
  have "0 \<le> \<lfloor>10 * m\<rfloor>" "0 \<le> \<lfloor>30 * d\<rfloor>" using assms by simp_all
  then show ?thesis using sample_count_Num[OF assms] by simp
qed

lemma sample_count_Inr:
  assumes "sample_count (motion_unit x) (drssi_unit y) = Inr k"
  shows "\<exists>m d. motion_unit x = Num m \<and> drssi_unit y = Num d \<and> 0 \<le> m \<and> 0 \<le> d \<and> d \<le> 1 \<and>
           24 \<le> k \<and> k \<le> 600"
proof -
  from motion_unit_cases[of x] obtain m where m: "0 \<le> m" "motion_unit x = Num m"
    using assms by (auto simp: sample_count_def SAMPLES_PER_MOTION_def)
  from drssi_unit_cases[of y] obtain d where d: "0 \<le> d" "d \<le> 1" "drssi_unit y = Num d"
    using assms m by (auto simp: sample_count_def)
  from sample_count_range[OF m(1) d(1)] assms m d show ?thesis by auto
qed

text \<open>
  C6. The count is \<open>BASE_SAMPLES + int(10 * motion_u) + int(30 * drssi_u)\<close>, capped at
  \<open>MAX_SAMPLES_PER\<close>. For finite inputs it lies in \<open>[24, 600]\<close> (\<open>sample_count_range\<close>
  above). For the motion \<open>inf\<close>, which \<^verbatim>\<open>float("inf")\<close> reads from a line, the motion unit
  is \<open>inf\<close> and \<^verbatim>\<open>int()\<close> raises OverflowError before the cap is applied: no count is
  produced, \<^verbatim>\<open>ingest\<close> ends with the exception, and so does the loop of \<^verbatim>\<open>main\<close> on the
  line \<^verbatim>\<open>aa,-40,inf\<close>.
\<close>

theorem ingest_inf_motion_raises:
  "sample_count (motion_unit PosInf) (drssi_unit (Num 0)) = Inl OverflowError \<and>
   ingest ev (new_engine columns lines t0) mac (Num s) PosInf now now2 = Inl OverflowError \<and>
   main_loop reading_env (new_engine columns lines t0) [(''aa,-40,inf'', ck)] = Inl OverflowError"
proof -
  have a: "sample_count (motion_unit PosInf) (drssi_unit (Num 0)) = Inl OverflowError"
    by (simp add: sample_count_def motion_unit_def f_max_def f_gt_def SAMPLES_PER_MOTION_def Let_def)
  have b: "ingest ev (new_engine columns lines t0) mac (Num s) PosInf now now2 = Inl OverflowError"
    for ev mac s now now2
    by (simp add: ingest_def new_engine_def ema_update_def sample_count_def motion_unit_def
        f_max_def f_gt_def SAMPLES_PER_MOTION_def Let_def)
  have c: "process_line reading_env (new_engine columns lines t0) ''aa,-40,inf'' ck
             = Inl OverflowError"
    by (simp add: process_line_def strip_def is_space_def Let_def startswith_def reading_env_def b)
  show ?thesis using a b c by (simp add: main_loop_def main_step_def)
qed



section \<open>Decay\<close>

lemma fast_decay:
  "fast (decay c now) =
     (if now > last_fast c then map (\<lambda>v. v * FAST_DECAY_PER_SEC powr (now - last_fast c)) (fast c)
      else fast c)"
  by (simp add: decay_def Let_def)


lemma slow_decay:
  "slow (decay c now) =
     (if now > last_slow c then map (\<lambda>v. v * SLOW_DECAY_PER_SEC powr (now - last_slow c)) (slow c)
      else slow c)"
  by (simp add: decay_def Let_def)

lemma last_fast_decay: "last_fast (decay c now) = (if now > last_fast c then now else last_fast c)"
  by (simp add: decay_def Let_def)

lemma last_slow_decay: "last_slow (decay c now) = (if now > last_slow c then now else last_slow c)"
  by (simp add: decay_def Let_def)


text \<open>
  C5. Decaying at \<open>t0 + t1\<close> and again at \<open>t0 + t1 + t2\<close> leaves the same fast and slow
  layers (and the same two timestamps) as decaying once at \<open>t0 + t1 + t2\<close>, for every
  canvas, every reference time \<open>t0\<close> and all durations \<open>t1, t2 \<ge> 0\<close>, over the reals.
\<close>

theorem decay_split:
  assumes "0 \<le> t1" and "0 \<le> t2"
  shows "fast (decay (decay c (t0 + t1)) (t0 + t1 + t2)) = fast (decay c (t0 + t1 + t2)) \<and>
         slow (decay (decay c (t0 + t1)) (t0 + t1 + t2)) = slow (decay c (t0 + t1 + t2)) \<and>
         last_fast (decay (decay c (t0 + t1)) (t0 + t1 + t2)) = last_fast (decay c (t0 + t1 + t2)) \<and>
         last_slow (decay (decay c (t0 + t1)) (t0 + t1 + t2)) = last_slow (decay c (t0 + t1 + t2))"
proof -
  have F: "FAST_DECAY_PER_SEC powr (t0 + t1 - last_fast c) * FAST_DECAY_PER_SEC powr t2
             = FAST_DECAY_PER_SEC powr (t0 + t1 + t2 - last_fast c)"
    by (simp add: powr_add [symmetric] algebra_simps)
  have S: "SLOW_DECAY_PER_SEC powr (t0 + t1 - last_slow c) * SLOW_DECAY_PER_SEC powr t2
             = SLOW_DECAY_PER_SEC powr (t0 + t1 + t2 - last_slow c)"
    by (simp add: powr_add [symmetric] algebra_simps)
  have 1: "fast (decay (decay c (t0 + t1)) (t0 + t1 + t2)) = fast (decay c (t0 + t1 + t2))"
    using assms F by (auto simp: fast_decay last_fast_decay mult.assoc)
  have 2: "slow (decay (decay c (t0 + t1)) (t0 + t1 + t2)) = slow (decay c (t0 + t1 + t2))"
    using assms S by (auto simp: slow_decay last_slow_decay mult.assoc)
  have 3: "last_fast (decay (decay c (t0 + t1)) (t0 + t1 + t2)) = last_fast (decay c (t0 + t1 + t2))"
    using assms by (auto simp: last_fast_decay)
  have 4: "last_slow (decay (decay c (t0 + t1)) (t0 + t1 + t2)) = last_slow (decay c (t0 + t1 + t2))"
    using assms by (auto simp: last_slow_decay)
  show ?thesis using 1 2 3 4 by simp
qed

theorem decay_split_witness:
  "(0::real) \<le> 1 \<and> (0::real) \<le> 2 \<and>
   fast (decay (decay (new_canvas 0 0 0) (0 + 1)) (0 + 1 + 2)) = fast (decay (new_canvas 0 0 0) (0 + 1 + 2))"
  using decay_split [of 1 2 "new_canvas 0 0 0" 0] by simp


section \<open>The scale of the renderer\<close>









section \<open>Rendering returns\<close>

lemma idx_of_range:
  assumes "0 \<le> x" "x < ws c" "0 \<le> y" "y < hs c"
  shows "0 \<le> idx_of c x y \<and> idx_of c x y < ws c * hs c"
proof -
  have "y * ws c + x < y * ws c + ws c" using assms by simp
  also have "\<dots> = (y + 1) * ws c" by (simp add: algebra_simps)
  also have "\<dots> \<le> hs c * ws c" using assms by (intro mult_right_mono) auto
  finally have "y * ws c + x < ws c * hs c" by (simp add: mult.commute)
  moreover have "0 \<le> y * ws c" using assms by simp
  ultimately show ?thesis using assms by (simp add: idx_of_def)
qed



lemma mask_index_range:
  assumes "0 \<le> i" "i < w" "0 \<le> j" "j < (h::int)"
  shows "0 \<le> j * w + i \<and> j * w + i < w * h"
proof -
  have "j * w + i < j * w + w" using assms by simp
  also have "\<dots> = (j + 1) * w" by (simp add: algebra_simps)
  also have "\<dots> \<le> h * w" using assms by (intro mult_right_mono) auto
  finally have "j * w + i < w * h" by (simp add: mult.commute)
  moreover have "0 \<le> j * w" using assms by simp
  ultimately show ?thesis using assms by simp
qed












section \<open>The circular mask\<close>

lemma fold_list_update_length:
  "length (fold (\<lambda>i m. m[k i := v i]) xs m) = length m"
  by (induction xs arbitrary: m) simp_all

lemma fold_update_nth:
  "p < length m \<Longrightarrow>
   fold (\<lambda>i m. m[a + i := g i]) [0..<n] m ! p = (if a \<le> p \<and> p < a + n then g (p - a) else m ! p)"
proof (induction n)
  case 0
  then show ?case by auto
next
  case (Suc n)
  show ?case
  proof (cases "p = a + n")
    case True
    then show ?thesis using Suc.prems by (simp add: fold_list_update_length)
  next
    case False
    then show ?thesis using Suc by (auto simp: fold_list_update_length)
  qed
qed

lemma mask_row_eq:
  assumes "0 \<le> w"
  shows "mask_row w x0 y0 r j m =
           fold (\<lambda>i m. m[j * nat w + i := mask_cell w x0 y0 r (int j) (int i)]) [0..<nat w] m"
proof -
  have "nat (int j * w + int i) = j * nat w + i" for i
  proof -
    have "int j * w + int i = int (j * nat w + i)" using assms by simp
    then show ?thesis by (metis nat_int)
  qed
  then show ?thesis by (simp add: mask_row_def)
qed

lemma mask_row_length: "length (mask_row w x0 y0 r j m) = length m"
  by (simp add: mask_row_def fold_list_update_length)

lemma mask_row_nth:
  assumes "0 \<le> w" "p < length m"
  shows "mask_row w x0 y0 r j m ! p =
           (if j * nat w \<le> p \<and> p < j * nat w + nat w
            then mask_cell w x0 y0 r (int j) (int (p - j * nat w)) else m ! p)"
  by (simp add: mask_row_eq[OF assms(1)] fold_update_nth[OF assms(2)])

lemma mask_rows_length: "length (fold (mask_row w x0 y0 r) [0..<h] m) = length m"
  by (induction h) (simp_all add: mask_row_length)

lemma mask_rows_nth:
  assumes "0 \<le> w" "p < length m"
  shows "fold (mask_row w x0 y0 r) [0..<h] m ! p =
           (if p < h * nat w then mask_cell w x0 y0 r (int (p div nat w)) (int (p mod nat w))
            else m ! p)"
proof (induction h)
  case 0
  then show ?case by simp
next
  case (Suc h)
  have len: "p < length (fold (mask_row w x0 y0 r) [0..<h] m)"
    using assms(2) by (simp add: mask_rows_length)
  show ?case
  proof (cases "h * nat w \<le> p \<and> p < h * nat w + nat w")
    case True
    then have pos: "0 < nat w" by linarith
    have d: "p div nat w = h"
      using True pos by (metis div_nat_eqI mult.commute mult_Suc_right add.commute)
    have m: "p mod nat w = p - h * nat w"
      using d by (metis minus_mult_div_eq_mod mult.commute)
    show ?thesis using True d m by (simp add: mask_row_nth[OF assms(1) len])
  next
    case False
    then show ?thesis using Suc by (auto simp: mask_row_nth[OF assms(1) len])
  qed
qed

lemma build_mask_length: "length (build_mask w h x0 y0 r) = nat (w * h)"
  by (simp add: build_mask_def mask_rows_length)

lemma build_mask_nth:
  assumes "0 \<le> i" "i < w" "0 \<le> j" "j < h"
  shows "build_mask w h x0 y0 r ! nat (j * w + i) = mask_cell w x0 y0 r j i"
proof -
  have w: "0 \<le> w" using assms by simp
  have r: "0 \<le> j * w + i \<and> j * w + i < w * h" by (rule mask_index_range[OF assms])
  have e: "nat (j * w + i) = nat j * nat w + nat i"
    using assms w by (simp add: nat_add_distrib nat_mult_distrib)
  have p: "nat (j * w + i) < length (replicate (nat (w * h)) True)" using r by simp
  have lt: "nat j * nat w + nat i < nat h * nat w"
  proof -
    have "nat j * nat w + nat i < nat j * nat w + nat w" using assms by simp
    also have "\<dots> = Suc (nat j) * nat w" by simp
    also have "\<dots> \<le> nat h * nat w" using assms by (intro mult_le_mono1) simp
    finally show ?thesis .
  qed
  have d: "(nat j * nat w + nat i) div nat w = nat j" using assms by simp
  have m: "(nat j * nat w + nat i) mod nat w = nat i" using assms by simp
  show ?thesis
    unfolding build_mask_def mask_rows_nth[OF w p] using lt d m assms by (simp add: e)
qed

lemma resize_fields:
  "wc (resize columns lines c) = max 120 columns - 2"
  "hc (resize columns lines c) = max 40 lines - 4"
  "ws (resize columns lines c) = (max 120 columns - 2) * 2"
  "hs (resize columns lines c) = (max 40 lines - 4) * 4"
  "cx (resize columns lines c) = max 120 columns - 2"
  "cy (resize columns lines c) = (max 40 lines - 4) * 2"
  "R (resize columns lines c) = min (max 120 columns - 2) ((max 40 lines - 4) * 2) - 4"
  "last_fast (resize columns lines c) = last_fast c"
  "last_slow (resize columns lines c) = last_slow c"
  by (simp_all add: resize_def term_dims_def BORDER_def HEADER_LINES_def Let_def)

lemma resize_layers:
  "fast (resize columns lines c) = replicate (nat (ws (resize columns lines c) * hs (resize columns lines c))) 0"
  "slow (resize columns lines c) = replicate (nat (ws (resize columns lines c) * hs (resize columns lines c))) 0"
  "hit (resize columns lines c) = replicate (nat (ws (resize columns lines c) * hs (resize columns lines c))) 0"
  by (simp_all add: resize_def term_dims_def BORDER_def HEADER_LINES_def Let_def)

lemma resize_mask:
  "cell_mask (resize columns lines c) =
     build_mask (wc (resize columns lines c)) (hc (resize columns lines c))
       (cx (resize columns lines c)) (cy (resize columns lines c)) (R (resize columns lines c))"
  by (simp add: resize_def term_dims_def BORDER_def HEADER_LINES_def Let_def)

lemma resize_wf: "canvas_wf (resize columns lines c)"
  by (simp add: canvas_wf_def resize_layers resize_mask build_mask_length)
     (auto simp: resize_fields max_def)

lemma resize_nonneg: "canvas_nonneg (resize columns lines c)"
  by (simp add: canvas_nonneg_def resize_layers)

lemma resize_radius: "68 \<le> R (resize columns lines c)"
  by (simp add: resize_fields)

lemma mask_cell_in_circle:
  "mask_cell (wc c) (cx c) (cy c) (R c) j i = in_circle_sub c (i * 2 + 1) (j * 4 + 2)"
  by (simp add: mask_cell_def in_circle_sub_def Let_def)

lemma render_cell_masked:
  assumes m: "cell_mask c = build_mask (wc c) (hc c) (cx c) (cy c) (R c)"
    and ij: "0 \<le> i" "i < wc c" "0 \<le> j" "j < hc c"
    and out: "\<not> in_circle_sub c (i * 2 + 1) (j * 4 + 2)"
  shows "render_cell c merged q j i = Inr (asc '' '')"
proof -
  have r: "0 \<le> j * wc c + i \<and> j * wc c + i < wc c * hc c" by (rule mask_index_range[OF ij])
  have g: "py_get (cell_mask c) (j * wc c + i) = Inr (cell_mask c ! nat (j * wc c + i))"
    using r by (intro py_get_in_range) (simp_all add: m build_mask_length)
  have "cell_mask c ! nat (j * wc c + i) = in_circle_sub c (i * 2 + 1) (j * 4 + 2)"
    by (simp add: m build_mask_nth[OF ij] mask_cell_in_circle)
  then show ?thesis using g out by (simp add: render_cell_def)
qed

lemma splat_outside:
  "x < 0 \<or> x \<ge> ws c \<or> y < 0 \<or> y \<ge> hs c \<or> \<not> in_circle_sub c x y \<Longrightarrow>
   splat_subpixel c x y ink g = Inr (c, g)"
  by (auto simp: splat_subpixel_def)

text \<open>
  C1. A call of \<^verbatim>\<open>splat_subpixel\<close> at a point outside the grid or outside the circle of
  radius \<open>R\<close> about the centre returns the canvas (and the random source) as it was. On a
  canvas that \<^verbatim>\<open>resize\<close> built, whatever its three layers hold since and whatever merged
  values and scale are rendered, a cell of the grid whose centre \<open>(2i + 1, 4j + 2)\<close> lies
  outside the circle is written as one blank.
\<close>

theorem circular_active_region:
  assumes "c0 = (resize columns lines c1)\<lparr>fast := fs, slow := ss, hit := hh\<rparr>"
  shows "(x < 0 \<or> x \<ge> ws c \<or> y < 0 \<or> y \<ge> hs c \<or> \<not> in_circle_sub c x y \<longrightarrow>
            splat_subpixel c x y ink g = Inr (c, g)) \<and>
         (0 \<le> i \<and> i < wc c0 \<and> 0 \<le> j \<and> j < hc c0 \<and> \<not> in_circle_sub c0 (i * 2 + 1) (j * 4 + 2) \<longrightarrow>
            render_cell c0 merged q j i = Inr (asc '' ''))"
proof -
  have m: "cell_mask c0 = build_mask (wc c0) (hc c0) (cx c0) (cy c0) (R c0)"
    using resize_mask[of columns lines c1] by (simp add: assms)
  show ?thesis
    using splat_outside[of x c y ink g] render_cell_masked[OF m, of i j merged q] by blast
qed

theorem circular_active_region_witness:
  "splat_subpixel (new_canvas 0 0 0) 0 0 1 (sconst 0) = Inr (new_canvas 0 0 0, sconst 0) \<and>
   render_cell ((resize 0 0 (new_canvas 0 0 0))\<lparr>fast := [1], slow := [1], hit := [1]\<rparr>) [2] 1 0 0
     = Inr (asc '' '')"
  using circular_active_region [where columns = 0 and lines = 0 and ?c1.0 = "new_canvas 0 0 0"
      and fs = "[1]" and ss = "[1]" and hh = "[1]" and x = 0 and y = 0 and c = "new_canvas 0 0 0"
      and ink = 1 and g = "sconst 0" and i = 0 and j = 0 and merged = "[2]" and q = 1, OF refl]
  by (simp add: in_circle_sub_def resize_fields new_canvas_def Let_def)


section \<open>Deposits\<close>

lemma kept_refl: "canvas_wf c \<Longrightarrow> kept c c"
  by (simp add: kept_def same_geometry_def)

lemma kept_trans: "kept a b \<Longrightarrow> kept b c \<Longrightarrow> kept a c"
  by (simp add: kept_def same_geometry_def)

lemma sum_list_add_at:
  fixes xs :: "real list"
  shows "i < length xs \<Longrightarrow> sum_list (xs[i := xs ! i + a]) = sum_list xs + a"
proof (induction xs arbitrary: i)
  case Nil
  then show ?case by simp
next
  case (Cons x xs)
  then show ?case by (cases i) simp_all
qed

lemma nonneg_add_at:
  fixes xs :: "'a::ordered_ab_semigroup_add_imp_le list"
  assumes "\<forall>v \<in> set xs. z \<le> v" "i < length xs" "z \<le> xs ! i + a"
  shows "\<forall>v \<in> set (xs[i := xs ! i + a]). z \<le> v"
  using assms set_update_subset_insert[of xs i "xs ! i + a"] by auto

lemma foldE_accum:
  fixes mu :: "'s \<Rightarrow> real"
  assumes "P s"
    and "\<And>x s. x \<in> set xs \<Longrightarrow> P s \<Longrightarrow> \<exists>s'. f x s = Inr s' \<and> P s' \<and> mu s \<le> mu s' \<and> mu s' \<le> mu s + b"
  shows "\<exists>s'. foldE f xs s = Inr s' \<and> P s' \<and> mu s \<le> mu s' \<and> mu s' \<le> mu s + real (length xs) * b"
  using assms
proof (induction xs arbitrary: s)
  case Nil
  then show ?case by simp
next
  case (Cons x xs)
  from Cons.prems obtain s1 where s1: "f x s = Inr s1" "P s1" "mu s \<le> mu s1" "mu s1 \<le> mu s + b"
    by (meson list.set_intros(1))
  have "\<exists>s'. foldE f xs s1 = Inr s' \<and> P s' \<and> mu s1 \<le> mu s' \<and> mu s' \<le> mu s1 + real (length xs) * b"
    by (rule Cons.IH[OF s1(2)]) (simp add: Cons.prems(2))
  then obtain s2 where s2: "foldE f xs s1 = Inr s2" "P s2" "mu s1 \<le> mu s2"
    "mu s2 \<le> mu s1 + real (length xs) * b" by blast
  have "mu s2 \<le> mu s + real (length (x # xs)) * b"
    using s1(4) s2(4) by (simp add: algebra_simps)
  then show ?case using s1 s2 by auto
qed

lemma probe_total:
  assumes wf: "canvas_wf c" and b: "0 \<le> fst best" "fst best < ws c * hs c"
  shows "\<exists>bi bh g'. probe c x y n best g = Inr ((bi, bh), g') \<and> 0 \<le> bi \<and> bi < ws c * hs c"
  using b
proof (induction n arbitrary: best g)
  case 0
  then show ?case by (cases best) simp
next
  case (Suc n)
  define nx where "nx = x + fst (randint g (- 1) 1)"
  define g1 where "g1 = snd (randint g (- 1) 1)"
  define ny where "ny = y + fst (randint g1 (- 1) 1)"
  define g2 where "g2 = snd (randint g1 (- 1) 1)"
  have unfold: "probe c x y (Suc n) best g =
     (if nx < 0 \<or> nx \<ge> ws c \<or> ny < 0 \<or> ny \<ge> hs c then probe c x y n best g2
         else if \<not> in_circle_sub c nx ny then probe c x y n best g2
         else (let ii = idx_of c nx ny
               in case py_get (hit c) ii of
                    Inl e \<Rightarrow> Inl e
                  | Inr hh \<Rightarrow>
                      if hh < snd best
                      then (if hh = 0 then Inr ((ii, hh), g2) else probe c x y n (ii, hh) g2)
                      else probe c x y n best g2))"
    unfolding nx_def ny_def g1_def g2_def by (simp add: Let_def case_prod_beta)
  show ?case
  proof (cases "nx < 0 \<or> nx \<ge> ws c \<or> ny < 0 \<or> ny \<ge> hs c \<or> \<not> in_circle_sub c nx ny")
    case True
    then show ?thesis using Suc.IH[OF Suc.prems] unfold by auto
  next
    case False
    then have r: "0 \<le> nx" "nx < ws c" "0 \<le> ny" "ny < hs c" by auto
    from idx_of_range[OF r] have ir: "0 \<le> idx_of c nx ny" "idx_of c nx ny < ws c * hs c" by auto
    then have g: "py_get (hit c) (idx_of c nx ny) = Inr (hit c ! nat (idx_of c nx ny))"
      using wf by (intro py_get_in_range) (auto simp: canvas_wf_def)
    have ih2: "\<exists>bi bh g'. probe c x y n (idx_of c nx ny, h) g2 = Inr ((bi, bh), g') \<and> 0 \<le> bi \<and> bi < ws c * hs c" for h
      by (rule Suc.IH) (use ir in auto)
    show ?thesis
      using False unfold g ir ih2 Suc.IH[OF Suc.prems, of g2] by (auto simp: Let_def)
  qed
qed

lemma splat_effect:
  assumes wf: "canvas_wf c" and ink: "0 \<le> ink"
  shows "\<exists>c' g'. splat_subpixel c x y ink g = Inr (c', g') \<and> kept c c' \<and>
           sum_list (fast c) \<le> sum_list (fast c') \<and> sum_list (fast c') \<le> sum_list (fast c) + ink"
proof (cases "x < 0 \<or> x \<ge> ws c \<or> y < 0 \<or> y \<ge> hs c \<or> \<not> in_circle_sub c x y")
  case True
  then have "splat_subpixel c x y ink g = Inr (c, g)" by (rule splat_outside)
  then show ?thesis using kept_refl[OF wf] ink by simp
next
  case False
  then have r: "0 \<le> x" "x < ws c" "0 \<le> y" "y < hs c" by auto
  from idx_of_range[OF r] have ir: "0 \<le> idx_of c x y" "idx_of c x y < ws c * hs c" by auto
  have len: "int (length (fast c)) = ws c * hs c" "int (length (slow c)) = ws c * hs c"
    "int (length (hit c)) = ws c * hs c"
    using wf ir by (auto simp: canvas_wf_def)
  have g0: "py_get (hit c) (idx_of c x y) = Inr (hit c ! nat (idx_of c x y))"
    using ir len by (intro py_get_in_range) auto
  from probe_total[OF wf, of "(idx_of c x y, hit c ! nat (idx_of c x y))" x y 4 g] ir
  obtain bi bh g' where p: "probe c x y 4 (idx_of c x y, hit c ! nat (idx_of c x y)) g = Inr ((bi, bh), g')"
    "0 \<le> bi" "bi < ws c * hs c" by auto
  define c' where "c' = c\<lparr>fast := (fast c)[nat bi := fast c ! nat bi + ink],
                          slow := (slow c)[nat bi := slow c ! nat bi + ink * SLOW_GAIN],
                          hit := (hit c)[nat bi := hit c ! nat bi + 1]\<rparr>"
  have a1: "py_add_at (fast c) bi ink = Inr ((fast c)[nat bi := fast c ! nat bi + ink])"
    using p len by (intro py_add_at_in_range) auto
  have a2: "py_add_at (slow c) bi (ink * SLOW_GAIN) = Inr ((slow c)[nat bi := slow c ! nat bi + ink * SLOW_GAIN])"
    using p len by (intro py_add_at_in_range) auto
  have a3: "py_add_at (hit c) bi 1 = Inr ((hit c)[nat bi := hit c ! nat bi + 1])"
    using p len by (intro py_add_at_in_range) auto
  have res: "splat_subpixel c x y ink g = Inr (c', g')"
    using False g0 p(1) a1 a2 a3 by (simp add: splat_subpixel_def Let_def c'_def)
  have bl: "nat bi < length (fast c)" "nat bi < length (slow c)" "nat bi < length (hit c)"
    using p len by auto
  have wf': "canvas_wf c'" using wf by (simp add: canvas_wf_def c'_def)
  have geo: "same_geometry c c'" by (simp add: same_geometry_def c'_def)
  have nn: "canvas_nonneg c'" if n: "canvas_nonneg c"
  proof -
    have f: "\<forall>v \<in> set (fast c'). 0 \<le> v"
      unfolding c'_def using n bl ink
      by (simp del: set_update_subsetI) (rule nonneg_add_at, auto simp: canvas_nonneg_def)
    have s: "\<forall>v \<in> set (slow c'). 0 \<le> v"
      unfolding c'_def using n bl ink
      by (simp del: set_update_subsetI) (rule nonneg_add_at, auto simp: canvas_nonneg_def SLOW_GAIN_def)
    have h: "\<forall>v \<in> set (hit c'). 0 \<le> v"
      unfolding c'_def using n bl
      by (simp del: set_update_subsetI) (rule nonneg_add_at, auto simp: canvas_nonneg_def)
    show ?thesis using f s h by (simp add: canvas_nonneg_def)
  qed
  have sm: "sum_list (fast c') = sum_list (fast c) + ink"
    using bl by (simp add: c'_def sum_list_add_at)
  show ?thesis using res wf' geo nn sm ink by (auto simp: kept_def)
qed

lemma rng_random_range: "0 \<le> fst (rng_random g) \<and> fst (rng_random g) < 1"
  by (simp add: rng_random_def)

lemma uniform_range:
  assumes "a \<le> b"
  shows "a \<le> fst (uniform g a b) \<and> fst (uniform g a b) \<le> b"
proof -
  define u where "u = fst (rng_random g)"
  have u: "0 \<le> u" "u \<le> 1" using rng_random_range[of g] by (simp_all add: u_def)
  have e: "fst (uniform g a b) = a + (b - a) * u"
    by (simp add: uniform_def u_def case_prod_beta)
  have "0 \<le> (b - a) * u" using assms u by simp
  moreover have "(b - a) * u \<le> (b - a) * 1" using assms u by (intro mult_left_mono) auto
  ultimately show ?thesis using e by simp
qed

lemma ray_step_effect:
  assumes wf: "canvas_wf c" and ink: "0 \<le> ink"
  shows "\<exists>c' g'. ray_step theta r start steps ink s (c, g) = Inr (c', g') \<and> kept c c' \<and>
           sum_list (fast c) \<le> sum_list (fast c') \<and> sum_list (fast c') \<le> sum_list (fast c) + ink"
proof -
  define g1 where "g1 = snd (uniform g (- JITTER_ARC_DEG) JITTER_ARC_DEG)"
  define g2 where "g2 = snd (uniform g1 (- JITTER_R_FRAC) JITTER_R_FRAC)"
  define th where "th = theta + radians (fst (uniform g (- JITTER_ARC_DEG) JITTER_ARC_DEG))"
  define rr where "rr = (real_of_int start + real_of_int s / real_of_int (max 1 (steps - 1)) * (r - real_of_int start))
                         * (1 + fst (uniform g1 (- JITTER_R_FRAC) JITTER_R_FRAC))"
  define x where "x = py_round (real_of_int (cx c) + rr * cos th)"
  define y where "y = py_round (real_of_int (cy c) + rr * sin th)"
  have e: "ray_step theta r start steps ink s (c, g) =
             (if 0 \<le> x \<and> x < ws c \<and> 0 \<le> y \<and> y < hs c \<and> in_circle_sub c x y
              then splat_subpixel c x y ink g2 else Inr (c, g2))"
    unfolding x_def y_def rr_def th_def g2_def g1_def
    by (simp add: ray_step_def Let_def case_prod_beta)
  show ?thesis
    using splat_effect[OF wf ink, of x y g2] kept_refl[OF wf] ink by (auto simp: e)
qed

lemma deposit_ray_effect:
  assumes wf: "canvas_wf c" and ink: "0 \<le> ink"
  shows "\<exists>c' g'. deposit_ray c theta (Num r) ink g = Inr (c', g') \<and> kept c c' \<and>
           sum_list (fast c) \<le> sum_list (fast c') \<and>
           sum_list (fast c') \<le> sum_list (fast c) + real (nat (ray_steps r)) * ink"
proof -
  let ?f = "ray_step theta r (py_int (2 / 10 * r)) (ray_steps r) ink"
  let ?xs = "map int [0..<nat (ray_steps r)]"
  have "\<exists>s'. foldE ?f ?xs (c, g) = Inr s' \<and> kept c (fst s') \<and>
          sum_list (fast (fst (c, g))) \<le> sum_list (fast (fst s')) \<and>
          sum_list (fast (fst s')) \<le> sum_list (fast (fst (c, g))) + real (length ?xs) * ink"
  proof (rule foldE_accum[where P = "\<lambda>s. kept c (fst s)" and mu = "\<lambda>s. sum_list (fast (fst s))"])
    show "kept c (fst (c, g))" using kept_refl[OF wf] by simp
  next
    fix x :: int and s :: "canvas \<times> rng"
    assume k: "kept c (fst s)"
    obtain c1 g1 where s: "s = (c1, g1)" by (cases s)
    have wf1: "canvas_wf c1" using k s by (simp add: kept_def)
    from ray_step_effect[OF wf1 ink, of theta r "py_int (2 / 10 * r)" "ray_steps r" x g1]
    obtain c' g' where "?f x (c1, g1) = Inr (c', g')" "kept c1 c'"
      "sum_list (fast c1) \<le> sum_list (fast c')" "sum_list (fast c') \<le> sum_list (fast c1) + ink"
      by blast
    then show "\<exists>s'. ?f x s = Inr s' \<and> kept c (fst s') \<and> sum_list (fast (fst s)) \<le> sum_list (fast (fst s'))
                 \<and> sum_list (fast (fst s')) \<le> sum_list (fast (fst s)) + ink"
      using kept_trans[of c c1 c'] k s by auto
  qed
  then show ?thesis by (auto simp: Let_def)
qed

lemma ray_steps_bound:
  assumes rr: "0 \<le> rr" "rr \<le> 11 / 10 * (real_of_int Rr - 2)" and R4: "4 \<le> Rr"
  shows "1 \<le> ray_steps rr \<and> ray_steps rr \<le> Rr"
proof -
  define st where "st = py_int (2 / 10 * rr)"
  have st: "real_of_int st \<le> 2 / 10 * rr" "2 / 10 * rr - 1 < real_of_int st"
    using rr(1) by (simp_all add: st_def py_int_def) linarith+
  define z where "z = (rr - real_of_int st) * (RAY_STEPS_PER_M / 8)"
  have z0: "0 \<le> z" using st rr by (simp add: z_def RAY_STEPS_PER_M_def)
  have z1: "z \<le> 9 / 10 * rr + 9 / 8" using st by (simp add: z_def RAY_STEPS_PER_M_def)
  have "z < real_of_int Rr" using z1 rr(2) R4 by simp
  then have "py_int z < Rr" using z0 by (simp add: py_int_def floor_less_iff)
  then show ?thesis using R4 by (simp add: ray_steps_def st_def z_def)
qed

lemma ingest_step_effect:
  assumes wf: "canvas_wf c" and ink: "0 \<le> ink" and R4: "4 \<le> R c"
    and r: "2 \<le> r" "r \<le> real_of_int (R c) - 2"
  shows "\<exists>c' g'. ingest_step theta (Num r) ink n (c, g) = Inr (c', g') \<and> kept c c' \<and>
           sum_list (fast c) \<le> sum_list (fast c') \<and>
           sum_list (fast c') \<le> sum_list (fast c) + real_of_int (R c) * ink"
proof -
  define g1 where "g1 = snd (uniform g (- JITTER_ARC_DEG) JITTER_ARC_DEG)"
  define g2 where "g2 = snd (uniform g1 (- JITTER_R_FRAC) JITTER_R_FRAC)"
  define u2 where "u2 = fst (uniform g1 (- JITTER_R_FRAC) JITTER_R_FRAC)"
  define th where "th = theta + radians (fst (uniform g (- JITTER_ARC_DEG) JITTER_ARC_DEG))"
  have e: "ingest_step theta (Num r) ink n (c, g) = deposit_ray c th (Num (r * (1 + u2))) ink g2"
    unfolding th_def u2_def g2_def g1_def by (simp add: ingest_step_def Let_def case_prod_beta)
  have u: "- (1 / 10) \<le> u2" "u2 \<le> 1 / 10"
    using uniform_range[of "- JITTER_R_FRAC" JITTER_R_FRAC g1] by (simp_all add: u2_def JITTER_R_FRAC_def)
  have rr0: "0 \<le> r * (1 + u2)" using r u by simp
  have "r * (1 + u2) \<le> r * (11 / 10)" using r u by (intro mult_left_mono) auto
  also have "\<dots> \<le> (real_of_int (R c) - 2) * (11 / 10)" using r by (intro mult_right_mono) auto
  finally have rr1: "r * (1 + u2) \<le> 11 / 10 * (real_of_int (R c) - 2)" by simp
  from ray_steps_bound[OF rr0 rr1 R4]
  have sb: "real (nat (ray_steps (r * (1 + u2)))) \<le> real_of_int (R c)" by simp
  from deposit_ray_effect[OF wf ink, of th "r * (1 + u2)" g2]
  obtain c' g' where d: "deposit_ray c th (Num (r * (1 + u2))) ink g2 = Inr (c', g')" "kept c c'"
    "sum_list (fast c) \<le> sum_list (fast c')"
    "sum_list (fast c') \<le> sum_list (fast c) + real (nat (ray_steps (r * (1 + u2)))) * ink"
    by blast
  have "real (nat (ray_steps (r * (1 + u2)))) * ink \<le> real_of_int (R c) * ink"
    using sb ink by (intro mult_right_mono) auto
  then show ?thesis using d e by auto
qed

lemma ingest_loop_effect:
  assumes wf: "canvas_wf c" and ink: "0 \<le> ink" and R4: "4 \<le> R c"
    and r: "2 \<le> r" "r \<le> real_of_int (R c) - 2"
  shows "\<exists>c' g'. foldE (ingest_step theta (Num r) ink) [0..<k] (c, g) = Inr (c', g') \<and> kept c c' \<and>
           sum_list (fast c) \<le> sum_list (fast c') \<and>
           sum_list (fast c') \<le> sum_list (fast c) + real k * (real_of_int (R c) * ink)"
proof -
  let ?f = "ingest_step theta (Num r) ink"
  have "\<exists>s'. foldE ?f [0..<k] (c, g) = Inr s' \<and> kept c (fst s') \<and>
          sum_list (fast (fst (c, g))) \<le> sum_list (fast (fst s')) \<and>
          sum_list (fast (fst s')) \<le> sum_list (fast (fst (c, g))) + real (length [0..<k]) * (real_of_int (R c) * ink)"
  proof (rule foldE_accum[where P = "\<lambda>s. kept c (fst s)" and mu = "\<lambda>s. sum_list (fast (fst s))"])
    show "kept c (fst (c, g))" using kept_refl[OF wf] by simp
  next
    fix x :: nat and s :: "canvas \<times> rng"
    assume k: "kept c (fst s)"
    obtain c1 g1 where s: "s = (c1, g1)" by (cases s)
    have wf1: "canvas_wf c1" and R1: "R c1 = R c" using k s by (simp_all add: kept_def same_geometry_def)
    from ingest_step_effect[OF wf1 ink, of r theta x g1] R4 r R1
    obtain c' g' where "?f x (c1, g1) = Inr (c', g')" "kept c1 c'"
      "sum_list (fast c1) \<le> sum_list (fast c')" "sum_list (fast c') \<le> sum_list (fast c1) + real_of_int (R c) * ink"
      by auto
    then show "\<exists>s'. ?f x s = Inr s' \<and> kept c (fst s') \<and> sum_list (fast (fst s)) \<le> sum_list (fast (fst s'))
                 \<and> sum_list (fast (fst s')) \<le> sum_list (fast (fst s)) + real_of_int (R c) * ink"
      using kept_trans[of c c1 c'] k s by auto
  qed
  then show ?thesis by auto
qed

section \<open>Ingest\<close>

lemma radius_range:
  assumes "4 \<le> Rsub"
  shows "\<exists>r. rssi_to_radius_pix (Num s) Rsub = Num r \<and> 2 \<le> r \<and> r \<le> Rsub - 2"
proof -
  define t where "t = (RSSI_NEAR - max RSSI_FAR (min RSSI_NEAR s)) / (RSSI_NEAR - RSSI_FAR)"
  have t: "0 \<le> t" "t \<le> 1" by (auto simp: t_def RSSI_NEAR_def RSSI_FAR_def)
  have w: "0 \<le> Rsub - 4" using assms by simp
  have a: "0 \<le> t * (Rsub - 4)" using t w by simp
  have b: "t * (Rsub - 4) \<le> 1 * (Rsub - 4)" using t w by (intro mult_right_mono)
  have "rssi_to_radius_pix (Num s) Rsub = Num (2 + t * (Rsub - 4))"
    by (simp add: rssi_to_radius_pix_Num t_def)
  then show ?thesis using a b by auto
qed

lemma rssi_to_radius_pix_cases:
  assumes "4 \<le> Rsub"
  shows "rssi_to_radius_pix x Rsub = NaN \<or>
         (\<exists>r. rssi_to_radius_pix x Rsub = Num r \<and> 2 \<le> r \<and> r \<le> Rsub - 2)"
proof (cases x)
  case (Num s)
  then show ?thesis using radius_range[OF assms, of s] by simp
next
  case PosInf
  have "rssi_to_radius_pix PosInf Rsub = rssi_to_radius_pix (Num RSSI_NEAR) Rsub"
    by (simp add: rssi_to_radius_pix_def f_gt_def Let_def RSSI_NEAR_def RSSI_FAR_def)
  then show ?thesis using PosInf radius_range[OF assms, of RSSI_NEAR] by simp
next
  case NegInf
  have "rssi_to_radius_pix NegInf Rsub = rssi_to_radius_pix (Num RSSI_FAR) Rsub"
    by (simp add: rssi_to_radius_pix_def f_gt_def Let_def RSSI_NEAR_def RSSI_FAR_def)
  then show ?thesis using NegInf radius_range[OF assms, of RSSI_FAR] by simp
next
  case NaN
  then show ?thesis by (simp add: rssi_to_radius_pix_def f_gt_def f_sub_def Let_def)
qed

lemma radius_not_NaN:
  assumes "4 \<le> Rsub" "x \<noteq> NaN"
  shows "rssi_to_radius_pix x Rsub \<noteq> NaN"
proof (cases x)
  case (Num s)
  then show ?thesis using radius_range[OF assms(1), of s] by auto
next
  case PosInf
  have "rssi_to_radius_pix PosInf Rsub = rssi_to_radius_pix (Num RSSI_NEAR) Rsub"
    by (simp add: rssi_to_radius_pix_def f_gt_def Let_def RSSI_NEAR_def RSSI_FAR_def)
  then show ?thesis using PosInf radius_range[OF assms(1), of RSSI_NEAR] by auto
next
  case NegInf
  have "rssi_to_radius_pix NegInf Rsub = rssi_to_radius_pix (Num RSSI_FAR) Rsub"
    by (simp add: rssi_to_radius_pix_def f_gt_def Let_def RSSI_NEAR_def RSSI_FAR_def)
  then show ?thesis using NegInf radius_range[OF assms(1), of RSSI_FAR] by auto
next
  case NaN
  then show ?thesis using assms by simp
qed

lemma ingest_step_NaN: "ingest_step theta NaN ink n s = Inl ValueError"
  by (cases s) (simp add: ingest_step_def Let_def case_prod_beta)

lemma foldE_first_error:
  "xs \<noteq> [] \<Longrightarrow> (\<And>x s. f x s = Inl e) \<Longrightarrow> foldE f xs s = Inl e"
  by (cases xs) simp_all

lemma ink_per_Num:
  "ink_per (Num m) (Num d) k = Num ((9 / 10 * m + 1 / 10 * d) / real_of_int (max 1 k))"
  by (simp add: ink_per_def)

text \<open>What a call of ingest that returns has computed.\<close>

lemma ingest_Inr:
  assumes r: "ingest ev eng mac rssi motion now now2 = Inr eng'" and R4: "4 \<le> R (cv eng)"
  defines "st \<equiv> fst (ema_update (state eng mac) rssi motion now)"
    and "d_rs \<equiv> snd (ema_update (state eng mac) rssi motion now)"
  shows "\<exists>m d k rp c' g'.
           motion_unit (motion_ema st) = Num m \<and> drssi_unit d_rs = Num d \<and>
           0 \<le> m \<and> 0 \<le> d \<and> d \<le> 1 \<and> 24 \<le> k \<and> k \<le> 600 \<and>
           sample_count (motion_unit (motion_ema st)) (drssi_unit d_rs) = Inr k \<and>
           rssi_to_radius_pix (rssi_ema st) (real_of_int (R (cv eng))) = Num rp \<and>
           2 \<le> rp \<and> rp \<le> real_of_int (R (cv eng)) - 2 \<and>
           foldE (ingest_step (mac_angle ev mac) (Num rp) ((9 / 10 * m + 1 / 10 * d) / real_of_int k))
             [0..<nat k] (cv eng, seed_rng ev mac (seed_counter eng) (py_int (now2 * 5))) = Inr (c', g') \<and>
           eng' = eng\<lparr>cv := c', seed_counter := seed_counter eng + 1, state := (state eng)(mac \<mapsto> st)\<rparr>"
proof -
  let ?mu = "motion_unit (motion_ema st)" and ?du = "drssi_unit d_rs"
  let ?rp = "rssi_to_radius_pix (rssi_ema st) (real_of_int (R (cv eng)))"
  let ?g = "seed_rng ev mac (seed_counter eng) (py_int (now2 * 5))"
  obtain k where k: "sample_count ?mu ?du = Inr k"
    using r unfolding ingest_def st_def d_rs_def
    by (auto simp: Let_def case_prod_beta split: sum.splits)
  from sample_count_Inr[OF k] obtain m d where md: "?mu = Num m" "?du = Num d"
    "0 \<le> m" "0 \<le> d" "d \<le> 1" "24 \<le> k" "k \<le> 600" by blast
  have ip: "ink_per ?mu ?du k = Num ((9 / 10 * m + 1 / 10 * d) / real_of_int k)"
    using md by (simp add: ink_per_Num)
  have eq: "ema_update (state eng mac) rssi motion now = (st, d_rs)"
    by (simp add: st_def d_rs_def)
  have e: "ingest ev eng mac rssi motion now now2 =
      (case foldE (ingest_step (mac_angle ev mac) ?rp ((9 / 10 * m + 1 / 10 * d) / real_of_int k))
              [0..<nat k] (cv eng, ?g) of
         Inl e \<Rightarrow> Inl e
       | Inr (c, g') \<Rightarrow> Inr (eng\<lparr>cv := c, seed_counter := seed_counter eng + 1,
                                 state := (state eng)(mac \<mapsto> st)\<rparr>))"
    by (simp add: ingest_def eq Let_def k ip)
  have ne: "[0..<nat k] \<noteq> []" using md by simp
  have "?rp \<noteq> NaN"
  proof
    assume n: "?rp = NaN"
    have "foldE (ingest_step (mac_angle ev mac) ?rp ((9 / 10 * m + 1 / 10 * d) / real_of_int k))
              [0..<nat k] (cv eng, ?g) = Inl ValueError"
      unfolding n by (rule foldE_first_error[OF ne]) (rule ingest_step_NaN)
    then show False using r e by simp
  qed
  then obtain rp where rp: "?rp = Num rp" "2 \<le> rp" "rp \<le> real_of_int (R (cv eng)) - 2"
    using rssi_to_radius_pix_cases[of "real_of_int (R (cv eng))" "rssi_ema st"] R4 by auto
  obtain c' g' where f: "foldE (ingest_step (mac_angle ev mac) (Num rp) ((9 / 10 * m + 1 / 10 * d) / real_of_int k))
              [0..<nat k] (cv eng, ?g) = Inr (c', g')"
    "eng' = eng\<lparr>cv := c', seed_counter := seed_counter eng + 1, state := (state eng)(mac \<mapsto> st)\<rparr>"
    using r e rp by (auto split: sum.splits)
  show ?thesis using md k rp f by blast
qed

lemma ingest_effect:
  assumes r: "ingest ev eng mac rssi motion now now2 = Inr eng'"
    and wf: "canvas_wf (cv eng)" and R4: "4 \<le> R (cv eng)"
  shows "kept (cv eng) (cv eng') \<and>
         (\<exists>m d. motion_unit (motion_ema (fst (ema_update (state eng mac) rssi motion now))) = Num m \<and>
                drssi_unit (snd (ema_update (state eng mac) rssi motion now)) = Num d \<and>
                0 \<le> m \<and> 0 \<le> d \<and> d \<le> 1 \<and>
                sum_list (fast (cv eng)) \<le> sum_list (fast (cv eng')) \<and>
                sum_list (fast (cv eng')) \<le> sum_list (fast (cv eng))
                    + real_of_int (R (cv eng)) * (9 / 10 * m + 1 / 10 * d))"
proof -
  let ?st = "fst (ema_update (state eng mac) rssi motion now)"
  let ?g = "seed_rng ev mac (seed_counter eng) (py_int (now2 * 5))"
  from ingest_Inr[OF r R4] obtain m d k rp c' g' where
    md: "motion_unit (motion_ema ?st) = Num m"
        "drssi_unit (snd (ema_update (state eng mac) rssi motion now)) = Num d"
        "0 \<le> m" "0 \<le> d" "d \<le> 1" "24 \<le> k" "k \<le> 600"
    and rp: "2 \<le> rp" "rp \<le> real_of_int (R (cv eng)) - 2"
    and f: "foldE (ingest_step (mac_angle ev mac) (Num rp) ((9 / 10 * m + 1 / 10 * d) / real_of_int k))
             [0..<nat k] (cv eng, ?g) = Inr (c', g')"
    and e: "eng' = eng\<lparr>cv := c', seed_counter := seed_counter eng + 1, state := (state eng)(mac \<mapsto> ?st)\<rparr>"
    by blast
  define w where "w = 9 / 10 * m + 1 / 10 * d"
  have w0: "0 \<le> w" using md by (simp add: w_def)
  have ink: "0 \<le> w / real_of_int k" using w0 md by simp
  from ingest_loop_effect[OF wf ink R4 rp, of "mac_angle ev mac" "nat k" ?g] f
  have l: "kept (cv eng) c'" "sum_list (fast (cv eng)) \<le> sum_list (fast c')"
    "sum_list (fast c') \<le> sum_list (fast (cv eng)) + real (nat k) * (real_of_int (R (cv eng)) * (w / real_of_int k))"
    by (auto simp: w_def)
  have "real (nat k) * (real_of_int (R (cv eng)) * (w / real_of_int k)) = real_of_int (R (cv eng)) * w"
    using md by simp
  then show ?thesis using l md e by (auto simp: w_def)
qed

lemma ingest_returns:
  assumes wf: "canvas_wf (cv eng)" and R4: "4 \<le> R (cv eng)"
    and k: "sample_count (motion_unit (motion_ema (fst (ema_update (state eng mac) rssi motion now))))
              (drssi_unit (snd (ema_update (state eng mac) rssi motion now))) = Inr k"
    and nn: "rssi_ema (fst (ema_update (state eng mac) rssi motion now)) \<noteq> NaN"
  shows "\<exists>eng'. ingest ev eng mac rssi motion now now2 = Inr eng'"
proof -
  let ?st = "fst (ema_update (state eng mac) rssi motion now)"
  let ?d = "snd (ema_update (state eng mac) rssi motion now)"
  let ?g = "seed_rng ev mac (seed_counter eng) (py_int (now2 * 5))"
  from sample_count_Inr[OF k] obtain m d where md: "motion_unit (motion_ema ?st) = Num m"
    "drssi_unit ?d = Num d" "0 \<le> m" "0 \<le> d" "d \<le> 1" "24 \<le> k" "k \<le> 600" by blast
  have "rssi_to_radius_pix (rssi_ema ?st) (real_of_int (R (cv eng))) \<noteq> NaN"
    using nn R4 by (intro radius_not_NaN) auto
  then obtain rp where rp: "rssi_to_radius_pix (rssi_ema ?st) (real_of_int (R (cv eng))) = Num rp"
    "2 \<le> rp" "rp \<le> real_of_int (R (cv eng)) - 2"
    using rssi_to_radius_pix_cases[of "real_of_int (R (cv eng))" "rssi_ema ?st"] R4 by auto
  define w where "w = 9 / 10 * m + 1 / 10 * d"
  have ink: "0 \<le> w / real_of_int k" using md by (simp add: w_def)
  from ingest_loop_effect[OF wf ink R4 rp(2,3), of "mac_angle ev mac" "nat k" ?g]
  obtain c' g' where "foldE (ingest_step (mac_angle ev mac) (Num rp) (w / real_of_int k)) [0..<nat k] (cv eng, ?g) = Inr (c', g')"
    by blast
  then have f: "foldE (ingest_step (mac_angle ev mac) (Num rp) ((9 / 10 * m + 1 / 10 * d) / real_of_int k))
      [0..<nat k] (cv eng, ?g) = Inr (c', g')" by (simp add: w_def)
  have eq: "ema_update (state eng mac) rssi motion now = (?st, ?d)" by simp
  have ip: "ink_per (motion_unit (motion_ema ?st)) (drssi_unit ?d) k
              = Num ((9 / 10 * m + 1 / 10 * d) / real_of_int k)"
    using md by (simp add: ink_per_Num)
  have k': "sample_count (motion_unit (motion_ema ?st)) (drssi_unit ?d) = Inr k" using k by simp
  show ?thesis
    using k' ip rp f by (simp add: ingest_def Let_def case_prod_beta)
qed


section \<open>Invariants of the canvas\<close>




lemma new_engine_inv: "engine_inv (new_engine columns lines t0)"
  using resize_radius[of columns lines]
  by (simp add: engine_inv_def new_engine_def new_canvas_def resize_wf resize_nonneg) (smt (verit))



lemma example_first_ingest:
  "\<exists>e. ingest ev (new_engine columns lines t0) mac (Num s) (Num m) now now2 = Inr e"
proof -
  let ?e = "new_engine columns lines t0"
  have i: "engine_inv ?e" by (rule new_engine_inv)
  have st: "ema_update (state ?e mac) (Num s) (Num m) now
            = (\<lparr>rssi_ema = Num s, motion_ema = Num m, last_t = now, last_rssi = Num s\<rparr>, Num 0)"
    by (simp add: new_engine_def ema_update_def)
  obtain k where k: "sample_count (motion_unit (Num m)) (drssi_unit (Num 0)) = Inr k"
    using sample_count_range[of "max 0 m" "min 8 \<bar>0\<bar> / 8"]
    by (auto simp: motion_unit_Num drssi_unit_Num)
  show ?thesis
    using i by (intro ingest_returns[where k = k]) (simp_all add: engine_inv_def st k)
qed



text \<open>
  C3. When \<^verbatim>\<open>ingest\<close> returns, on a canvas of the built shape with \<open>R \<ge> 4\<close>, both units
  are finite, each micro-deposit carries \<open>(0.9 * motion_u + 0.1 * drssi_u) / max(1, k)\<close>,
  every ray has at most \<open>R\<close> steps, and the sum of the fast layer grows by at most
  \<open>R * (0.9 * motion_u + 0.1 * drssi_u)\<close>: a bound in which the sample count \<open>k\<close> does not
  occur.
\<close>

theorem ingest_total_ink_bounded:
  assumes "ingest ev eng mac rssi motion now now2 = Inr eng'"
    and "canvas_wf (cv eng)" and "4 \<le> R (cv eng)"
  shows "\<exists>m d k.
           motion_unit (motion_ema (fst (ema_update (state eng mac) rssi motion now))) = Num m \<and>
           drssi_unit (snd (ema_update (state eng mac) rssi motion now)) = Num d \<and>
           sample_count (Num m) (Num d) = Inr k \<and>
           ink_per (Num m) (Num d) k = Num ((9 / 10 * m + 1 / 10 * d) / real_of_int (max 1 k)) \<and>
           (\<forall>rr. 0 \<le> rr \<and> rr \<le> 11 / 10 * (real_of_int (R (cv eng)) - 2) \<longrightarrow> ray_steps rr \<le> R (cv eng)) \<and>
           sum_list (fast (cv eng)) \<le> sum_list (fast (cv eng')) \<and>
           sum_list (fast (cv eng')) - sum_list (fast (cv eng))
             \<le> real_of_int (R (cv eng)) * (9 / 10 * m + 1 / 10 * d)"
proof -
  from ingest_Inr[OF assms(1,3)] obtain m d k where
    md: "motion_unit (motion_ema (fst (ema_update (state eng mac) rssi motion now))) = Num m"
        "drssi_unit (snd (ema_update (state eng mac) rssi motion now)) = Num d"
        "sample_count (motion_unit (motion_ema (fst (ema_update (state eng mac) rssi motion now))))
           (drssi_unit (snd (ema_update (state eng mac) rssi motion now))) = Inr k"
    by blast
  from ingest_effect[OF assms] md(1,2)
  have s: "sum_list (fast (cv eng)) \<le> sum_list (fast (cv eng'))"
    "sum_list (fast (cv eng')) \<le> sum_list (fast (cv eng)) + real_of_int (R (cv eng)) * (9 / 10 * m + 1 / 10 * d)"
    by auto
  have b: "\<forall>rr. 0 \<le> rr \<and> rr \<le> 11 / 10 * (real_of_int (R (cv eng)) - 2) \<longrightarrow> ray_steps rr \<le> R (cv eng)"
    using ray_steps_bound[OF _ _ assms(3)] by blast
  have k: "sample_count (Num m) (Num d) = Inr k" using md by simp
  show ?thesis using md(1,2) k s b ink_per_Num[of m d k] by (intro exI[of _ m] exI[of _ d] exI[of _ k]) simp
qed

theorem ingest_total_ink_bounded_witness:
  "\<exists>e. ingest example_env (new_engine 0 0 0) ''aa'' (Num (- 40)) (Num 1) 1 1 = Inr e \<and>
       sum_list (fast (cv e)) - sum_list (fast (cv (new_engine 0 0 0))) \<le> 68 * (9 / 10)"
proof -
  obtain e where e: "ingest example_env (new_engine 0 0 0) ''aa'' (Num (- 40)) (Num 1) 1 1 = Inr e"
    using example_first_ingest by blast
  have i: "canvas_wf (cv (new_engine 0 0 0))" "4 \<le> R (cv (new_engine 0 0 0))"
    using new_engine_inv[of 0 0 0] by (simp_all add: engine_inv_def)
  have R: "R (cv (new_engine 0 0 0)) = 68"
    by (simp add: new_engine_def new_canvas_def resize_fields)
  have st: "ema_update (state (new_engine 0 0 0) ''aa'') (Num (- 40)) (Num 1) 1
            = (\<lparr>rssi_ema = Num (- 40), motion_ema = Num 1, last_t = 1, last_rssi = Num (- 40)\<rparr>, Num 0)"
    by (simp add: new_engine_def ema_update_def)
  from ingest_total_ink_bounded [OF e i]
  have "sum_list (fast (cv e)) - sum_list (fast (cv (new_engine 0 0 0))) \<le> 68 * (9 / 10)"
    by (auto simp: st R motion_unit_Num drssi_unit_Num)
  then show ?thesis using e by blast
qed


section \<open>Lines that are not ingested\<close>










end
